theory Spec2Isabelle
  imports Main "HOL-Library.Multiset" "HOL-Library.Word"
begin

section \<open>Data model (internal/models/key.go, internal/sync/incremental.go)\<close>

text \<open>
  A Go \<^verbatim>\<open>time.Time\<close> is modelled by the instant it denotes (nanoseconds since
  the zero time) and the name of its location.  \<^verbatim>\<open>After\<close> compares instants only.
  The zero value of the type is \<open>Time_zero\<close>.
\<close>

record Time =
  instant :: int
  location :: string

definition Time_zero :: Time where
  "Time_zero = \<lparr>instant = 0, location = ''''\<rparr>"

definition After :: "Time \<Rightarrow> Time \<Rightarrow> bool" where
  "After t u = (instant u < instant t)"

text \<open>
  \<^verbatim>\<open>models.Key\<close>.  \<^verbatim>\<open>KeyType\<close> is a Go string type, so \<open>Type\<close> is a string.
  A nil slice is \<open>None\<close>, a nil pointer is \<open>None\<close>.
\<close>

record Key =
  Name :: string
  Type :: string
  Path :: string
  PubPath :: string
  Tags :: "string list option"
  Comment :: string
  CreatedAt :: Time
  UpdatedAt :: Time
  Fingerprint :: string
  Installed :: bool
  RSABits :: int
  HasPassphrase :: bool
  LastRotatedAt :: "Time option"
  RotationDueAt :: "Time option"
  RotatedFrom :: string

text \<open>The zero value \<^verbatim>\<open>models.Key{}\<close>.\<close>

definition Key_zero :: Key where
  "Key_zero = \<lparr>Name = '''', Type = '''', Path = '''', PubPath = '''', Tags = None,
     Comment = '''', CreatedAt = Time_zero, UpdatedAt = Time_zero, Fingerprint = '''',
     Installed = False, RSABits = 0, HasPassphrase = False, LastRotatedAt = None,
     RotationDueAt = None, RotatedFrom = ''''\<rparr>"

text \<open>\<^verbatim>\<open>SyncStrategy\<close> and \<^verbatim>\<open>ChangeType\<close> are Go string types with named constants.\<close>

type_synonym SyncStrategy = string

definition StrategyLocalWins :: SyncStrategy where "StrategyLocalWins = ''local''"
definition StrategyRemoteWins :: SyncStrategy where "StrategyRemoteWins = ''remote''"
definition StrategyNewerWins :: SyncStrategy where "StrategyNewerWins = ''newer''"
definition StrategyManual :: SyncStrategy where "StrategyManual = ''manual''"

type_synonym ChangeType = string

definition ChangeTypeCreate :: ChangeType where "ChangeTypeCreate = ''create''"
definition ChangeTypeUpdate :: ChangeType where "ChangeTypeUpdate = ''update''"
definition ChangeTypeDelete :: ChangeType where "ChangeTypeDelete = ''delete''"

text \<open>\<^verbatim>\<open>KeyChange\<close>; its fields carry the prefix \<open>kc\<close> where the Go name is used by another struct.\<close>

record KeyChange =
  kc_Type :: ChangeType
  kc_Key :: Key
  kc_Timestamp :: Time
  kc_DeviceID :: string
  kc_Checksum :: string

text \<open>\<^verbatim>\<open>SyncState\<close>; the Go map \<^verbatim>\<open>map[string]string\<close> is a partial function.\<close>

record SyncState =
  LastSyncTime :: Time
  ss_DeviceID :: string
  KeyChecksums :: "string \<rightharpoonup> string"
  Changes :: "KeyChange list"

record ConflictResolution =
  KeyName :: string
  LocalKey :: Key
  RemoteKey :: Key
  Strategy :: SyncStrategy
  ResolvedKey :: Key

record SyncManager =
  deviceID :: string
  localState :: SyncState
  remoteState :: SyncState
  strategy :: SyncStrategy

section \<open>ResolveConflict\<close>

text \<open>
  The method mutates \<^verbatim>\<open>conflict.ResolvedKey\<close> through the pointer and returns the field;
  the model returns the key together with the updated conflict.  A \<^verbatim>\<open>switch\<close> with no
  matching case and no default does nothing.
\<close>

definition ResolveConflict :: "SyncManager \<Rightarrow> ConflictResolution \<Rightarrow> Key \<times> ConflictResolution" where
  "ResolveConflict sm conflict =
     (let conflict' =
        (if Strategy conflict = StrategyLocalWins then
           conflict\<lparr>ResolvedKey := LocalKey conflict\<rparr>
         else if Strategy conflict = StrategyRemoteWins then
           conflict\<lparr>ResolvedKey := RemoteKey conflict\<rparr>
         else if Strategy conflict = StrategyNewerWins then
           (if After (UpdatedAt (LocalKey conflict)) (UpdatedAt (RemoteKey conflict)) then
              conflict\<lparr>ResolvedKey := LocalKey conflict\<rparr>
            else
              conflict\<lparr>ResolvedKey := RemoteKey conflict\<rparr>)
         else if Strategy conflict = StrategyManual then
           conflict\<lparr>ResolvedKey := LocalKey conflict\<rparr>
         else conflict)
      in (ResolvedKey conflict', conflict'))"

section \<open>ComputeChecksum\<close>

text \<open>
  The anonymous struct that \<^verbatim>\<open>ComputeChecksum\<close> fills and serialises.
\<close>

record ChecksumData =
  cd_Name :: string
  cd_Type :: string
  cd_Fingerprint :: string
  cd_Path :: string
  cd_Comment :: string
  cd_Tags :: "string list option"
  cd_CreatedAt :: Time

text \<open>
  \<^verbatim>\<open>hex.EncodeToString\<close> on the 32 bytes of a digest, the digest read as a 256-bit
  big-endian number: 64 lower-case hexadecimal digits, most significant first.
\<close>

definition hexdigit :: "nat \<Rightarrow> char" where
  "hexdigit n = ''0123456789abcdef'' ! (n mod 16)"

definition hex_EncodeToString :: "256 word \<Rightarrow> string" where
  "hex_EncodeToString h = map (\<lambda>i. hexdigit (unat (drop_bit (4 * (63 - i)) h) mod 16)) [0..<64]"

text \<open>
  \<^verbatim>\<open>json.Marshal\<close> and \<^verbatim>\<open>sha256.Sum256\<close> belong to the Go standard library; they are
  arguments of the model.  \<open>marshal\<close> gives the bytes that \<^verbatim>\<open>json.Marshal\<close> returns (the
  code discards its error), \<open>sha256\<close> maps bytes to a 32-byte digest.
\<close>

definition ComputeChecksum :: "(ChecksumData \<Rightarrow> string) \<Rightarrow> (string \<Rightarrow> 256 word) \<Rightarrow> Key \<Rightarrow> string" where
  "ComputeChecksum marshal sha256 key =
     (let data = \<lparr>cd_Name = Name key, cd_Type = Type key, cd_Fingerprint = Fingerprint key,
                   cd_Path = Path key, cd_Comment = Comment key, cd_Tags = Tags key,
                   cd_CreatedAt = CreatedAt key\<rparr>;
          jsonData = marshal data;
          hash = sha256 jsonData
      in hex_EncodeToString hash)"

section \<open>UpdateLocalState, DetectChanges, DetectConflicts, ApplyChanges\<close>

text \<open>
  The loop \<^verbatim>\<open>for _, key := range keys { m[key.Name] = key }\<close>, which three of the
  methods run over their arguments.
\<close>

definition buildKeyMap :: "Key list \<Rightarrow> (string \<rightharpoonup> Key)" where
  "buildKeyMap keys = foldl (\<lambda>m key. m(Name key \<mapsto> key)) Map.empty keys"

text \<open>Reading a Go map at a missing key gives the zero value.\<close>

definition lookupKey :: "(string \<rightharpoonup> Key) \<Rightarrow> string \<Rightarrow> Key" where
  "lookupKey m name = (case m name of None \<Rightarrow> Key_zero | Some key \<Rightarrow> key)"

definition UpdateLocalState ::
  "(ChecksumData \<Rightarrow> string) \<Rightarrow> (string \<Rightarrow> 256 word) \<Rightarrow> Time \<Rightarrow> SyncManager \<Rightarrow> Key list \<Rightarrow> SyncManager" where
  "UpdateLocalState marshal sha256 now sm keys =
     sm\<lparr>localState := (localState sm)\<lparr>
          KeyChecksums := foldl (\<lambda>m key. m(Name key \<mapsto> ComputeChecksum marshal sha256 key)) Map.empty keys,
          LastSyncTime := now\<rparr>\<rparr>"

text \<open>
  Go does not fix the order in which \<^verbatim>\<open>range\<close> visits a map.  Every loop over a map
  takes the order of the visit as a list of names; the theorems hold for every list that
  enumerates the map's names once each.
\<close>

definition enumerates :: "string list \<Rightarrow> (string \<rightharpoonup> 'v) \<Rightarrow> bool" where
  "enumerates order m = (distinct order \<and> set order = dom m)"

text \<open>The body of the first loop of \<^verbatim>\<open>DetectChanges\<close>, at one name of the local map.\<close>

definition detectLocal :: "Time \<Rightarrow> SyncManager \<Rightarrow> (string \<rightharpoonup> Key) \<Rightarrow> KeyChange list \<Rightarrow> string \<Rightarrow> KeyChange list" where
  "detectLocal now sm localMap changes name =
     (case KeyChecksums (localState sm) name of
        None \<Rightarrow> changes
      | Some localChecksum \<Rightarrow>
          (case KeyChecksums (remoteState sm) name of
             None \<Rightarrow>
               changes @ [\<lparr>kc_Type = ChangeTypeCreate, kc_Key = lookupKey localMap name,
                           kc_Timestamp = now, kc_DeviceID = deviceID sm,
                           kc_Checksum = localChecksum\<rparr>]
           | Some remoteChecksum \<Rightarrow>
               if localChecksum \<noteq> remoteChecksum then
                 changes @ [\<lparr>kc_Type = ChangeTypeUpdate, kc_Key = lookupKey localMap name,
                             kc_Timestamp = now, kc_DeviceID = deviceID sm,
                             kc_Checksum = localChecksum\<rparr>]
               else changes))"

text \<open>The body of the second loop, at one name of the remote map.\<close>

definition detectDeleted :: "Time \<Rightarrow> SyncManager \<Rightarrow> KeyChange list \<Rightarrow> string \<Rightarrow> KeyChange list" where
  "detectDeleted now sm changes name =
     (case KeyChecksums (remoteState sm) name of
        None \<Rightarrow> changes
      | Some remoteChecksum \<Rightarrow>
          (case KeyChecksums (localState sm) name of
             None \<Rightarrow>
               changes @ [\<lparr>kc_Type = ChangeTypeDelete, kc_Key = Key_zero\<lparr>Name := name\<rparr>,
                           kc_Timestamp = now, kc_DeviceID = deviceID sm,
                           kc_Checksum = ''''\<rparr>]
           | Some localChecksum \<Rightarrow> changes))"

definition DetectChanges :: "Time \<Rightarrow> string list \<Rightarrow> string list \<Rightarrow> SyncManager \<Rightarrow> Key list \<Rightarrow> KeyChange list" where
  "DetectChanges now localOrder remoteOrder sm localKeys =
     (let localMap = buildKeyMap localKeys;
          changes = foldl (detectLocal now sm localMap) [] localOrder;
          changes = foldl (detectDeleted now sm) changes remoteOrder
      in changes)"

text \<open>The body of the loop of \<^verbatim>\<open>DetectConflicts\<close>, at one name of \<open>localMap\<close>.\<close>

definition detectConflict ::
  "(ChecksumData \<Rightarrow> string) \<Rightarrow> (string \<Rightarrow> 256 word) \<Rightarrow> SyncManager \<Rightarrow> (string \<rightharpoonup> Key) \<Rightarrow> (string \<rightharpoonup> Key)
   \<Rightarrow> ConflictResolution list \<Rightarrow> string \<Rightarrow> ConflictResolution list" where
  "detectConflict marshal sha256 sm localMap remoteMap conflicts name =
     (case localMap name of
        None \<Rightarrow> conflicts
      | Some localKey \<Rightarrow>
          (case remoteMap name of
             None \<Rightarrow> conflicts
           | Some remoteKey \<Rightarrow>
               (let localChecksum = ComputeChecksum marshal sha256 localKey;
                    remoteChecksum = ComputeChecksum marshal sha256 remoteKey
                in if localChecksum \<noteq> remoteChecksum then
                     conflicts @ [\<lparr>KeyName = name, LocalKey = localKey, RemoteKey = remoteKey,
                                   Strategy = strategy sm, ResolvedKey = Key_zero\<rparr>]
                   else conflicts)))"

definition DetectConflicts ::
  "(ChecksumData \<Rightarrow> string) \<Rightarrow> (string \<Rightarrow> 256 word) \<Rightarrow> string list \<Rightarrow> SyncManager \<Rightarrow> Key list \<Rightarrow> Key list
   \<Rightarrow> ConflictResolution list" where
  "DetectConflicts marshal sha256 localOrder sm localKeys remoteKeys =
     (let localMap = buildKeyMap localKeys;
          remoteMap = buildKeyMap remoteKeys
      in foldl (detectConflict marshal sha256 sm localMap remoteMap) [] localOrder)"

text \<open>The body of the loop of \<^verbatim>\<open>ApplyChanges\<close> over the changes.\<close>

definition applyChange :: "(string \<rightharpoonup> Key) \<Rightarrow> KeyChange \<Rightarrow> (string \<rightharpoonup> Key)" where
  "applyChange keyMap change =
     (if kc_Type change = ChangeTypeCreate \<or> kc_Type change = ChangeTypeUpdate then
        keyMap(Name (kc_Key change) \<mapsto> kc_Key change)
      else if kc_Type change = ChangeTypeDelete then
        keyMap(Name (kc_Key change) := None)
      else keyMap)"

text \<open>The working set \<open>keyMap\<close> of \<^verbatim>\<open>ApplyChanges\<close> when its second loop ends.\<close>

definition ApplyChanges_keyMap :: "Key list \<Rightarrow> KeyChange list \<Rightarrow> (string \<rightharpoonup> Key)" where
  "ApplyChanges_keyMap localKeys changes = foldl applyChange (buildKeyMap localKeys) changes"

definition ApplyChanges :: "string list \<Rightarrow> Key list \<Rightarrow> KeyChange list \<Rightarrow> Key list" where
  "ApplyChanges order localKeys changes =
     (let keyMap = ApplyChanges_keyMap localKeys changes
      in foldl (\<lambda>result name. case keyMap name of None \<Rightarrow> result | Some key \<Rightarrow> result @ [key])
           [] order)"

section \<open>The sync history (internal/sync/history.go)\<close>

record SyncHistoryEntry =
  ID :: string
  Timestamp :: Time
  DeviceID :: string
  Direction :: string
  ChangesApplied :: int
  ConflictsFound :: int
  Success :: bool
  Error :: string
  he_Changes :: "KeyChange list"
  Duration :: int

record SyncHistory =
  historyFile :: string
  entries :: "SyncHistoryEntry list"
  maxEntries :: int

text \<open>
  What \<^verbatim>\<open>Save\<close> asks of the operating system and of the standard library.  An error is
  its message; \<open>None\<close> is \<^verbatim>\<open>nil\<close>.
\<close>

record OS =
  Dir :: "string \<Rightarrow> string"
  MkdirAll :: "string \<Rightarrow> string option"
  MarshalIndent :: "SyncHistoryEntry list \<Rightarrow> string + string"
  WriteFile :: "string \<Rightarrow> string \<Rightarrow> string option"

text \<open>A run-time panic of Go: a slice expression with a negative bound.\<close>

datatype fault = SliceBoundsOutOfRange

text \<open>
  \<^verbatim>\<open>sort.Slice\<close> with the comparison \<^verbatim>\<open>entries[i].Timestamp.After(entries[j].Timestamp)\<close>
  is an argument \<open>srt\<close> of the model.  The library promises a permutation in which no
  entry is followed by one that the comparison puts before it; the sort is not stable,
  so nothing is known of the order of entries with equal instants.
\<close>

definition newestFirst :: "SyncHistoryEntry list \<Rightarrow> bool" where
  "newestFirst xs = sorted_wrt (\<lambda>a b. \<not> After (Timestamp b) (Timestamp a)) xs"

definition sortsNewestFirst :: "(SyncHistoryEntry list \<Rightarrow> SyncHistoryEntry list) \<Rightarrow> bool" where
  "sortsNewestFirst srt = (\<forall>xs. mset (srt xs) = mset xs \<and> newestFirst (srt xs))"

text \<open>One sort that keeps the promise: insertion from the right.\<close>

fun insertNewest :: "SyncHistoryEntry \<Rightarrow> SyncHistoryEntry list \<Rightarrow> SyncHistoryEntry list" where
  "insertNewest e [] = [e]"
| "insertNewest e (x # xs) =
     (if After (Timestamp x) (Timestamp e) then x # insertNewest e xs else e # x # xs)"

definition insertionSort :: "SyncHistoryEntry list \<Rightarrow> SyncHistoryEntry list" where
  "insertionSort xs = foldr insertNewest xs []"

definition Save ::
  "OS \<Rightarrow> (SyncHistoryEntry list \<Rightarrow> SyncHistoryEntry list) \<Rightarrow> SyncHistory \<Rightarrow> fault + (string option \<times> SyncHistory)" where
  "Save os srt sh =
     (let dir = Dir os (historyFile sh) in
      case MkdirAll os dir of
        Some err \<Rightarrow> Inr (Some (''failed to create history directory: '' @ err), sh)
      | None \<Rightarrow>
          (let sh = sh\<lparr>entries := srt (entries sh)\<rparr> in
           if int (length (entries sh)) > maxEntries sh \<and> maxEntries sh < 0 then
             Inl SliceBoundsOutOfRange
           else
             (let sh = (if int (length (entries sh)) > maxEntries sh
                        then sh\<lparr>entries := take (nat (maxEntries sh)) (entries sh)\<rparr> else sh) in
              case MarshalIndent os (entries sh) of
                Inl err \<Rightarrow> Inr (Some (''failed to marshal history: '' @ err), sh)
              | Inr data \<Rightarrow>
                  (case WriteFile os (historyFile sh) data of
                     Some err \<Rightarrow> Inr (Some (''failed to write history file: '' @ err), sh)
                   | None \<Rightarrow> Inr (None, sh)))))"

definition Add ::
  "OS \<Rightarrow> (SyncHistoryEntry list \<Rightarrow> SyncHistoryEntry list) \<Rightarrow> SyncHistory \<Rightarrow> SyncHistoryEntry
   \<Rightarrow> fault + (string option \<times> SyncHistory)" where
  "Add os srt sh entry = Save os srt (sh\<lparr>entries := entries sh @ [entry]\<rparr>)"

text \<open>
  \<^verbatim>\<open>GetRecent\<close> sorts the ledger in place and returns a prefix of it; the model returns
  the prefix and the ledger.  \<^verbatim>\<open>sh.entries[:n]\<close> panics when \<open>n\<close> is negative.
\<close>

definition GetRecent ::
  "(SyncHistoryEntry list \<Rightarrow> SyncHistoryEntry list) \<Rightarrow> SyncHistory \<Rightarrow> int
   \<Rightarrow> fault + (SyncHistoryEntry list \<times> SyncHistory)" where
  "GetRecent srt sh n =
     (let n = (if n > int (length (entries sh)) then int (length (entries sh)) else n);
          sh = sh\<lparr>entries := srt (entries sh)\<rparr>
      in if n < 0 then Inl SliceBoundsOutOfRange
         else Inr (take (nat n) (entries sh), sh))"

section \<open>The serialisation of the checksum data by encoding/json\<close>

text \<open>
  \<^verbatim>\<open>json.Marshal\<close> is code of the Go standard library, not of this repository.  The
  definitions below follow \<^verbatim>\<open>encoding/json\<close> and \<^verbatim>\<open>unicode/utf8\<close> of Go 1.21, the version
  named in the repository's README; they are used to run \<open>ComputeChecksum\<close> on concrete
  keys.  Later releases of the library may write some control bytes with other escapes; no
  theorem below depends on those.
  A string is the list of its bytes.
\<close>

text \<open>
  \<^verbatim>\<open>utf8.DecodeRuneInString\<close> at a first byte of \<open>0x80\<close> or more: the table \<^verbatim>\<open>first\<close> gives
  the length of the sequence (0 for a byte that starts none) and the range accepted for the
  second byte.  The result is the size of a well-formed sequence; \<open>None\<close> stands for the pair
  \<^verbatim>\<open>(RuneError, 1)\<close> that the library returns on an invalid or truncated one.
\<close>

definition seqLen :: "nat \<Rightarrow> nat" where
  "seqLen s0 =
     (if 0xC2 \<le> s0 \<and> s0 \<le> 0xDF then 2
      else if 0xE0 \<le> s0 \<and> s0 \<le> 0xEF then 3
      else if 0xF0 \<le> s0 \<and> s0 \<le> 0xF4 then 4
      else 0)"

definition acceptLo :: "nat \<Rightarrow> nat" where
  "acceptLo s0 = (if s0 = 0xE0 then 0xA0 else if s0 = 0xF0 then 0x90 else 0x80)"

definition acceptHi :: "nat \<Rightarrow> nat" where
  "acceptHi s0 = (if s0 = 0xED then 0x9F else if s0 = 0xF4 then 0x8F else 0xBF)"

definition continuation :: "nat \<Rightarrow> bool" where
  "continuation b = (0x80 \<le> b \<and> b \<le> 0xBF)"

definition DecodeRuneInString :: "nat list \<Rightarrow> nat option" where
  "DecodeRuneInString s =
     (case s of
        [] \<Rightarrow> None
      | s0 # rest \<Rightarrow>
          (let sz = seqLen s0 in
           if sz = 0 then None
           else if length s < sz then None
           else if s ! 1 < acceptLo s0 \<or> acceptHi s0 < s ! 1 then None
           else if sz \<le> 2 then Some 2
           else if \<not> continuation (s ! 2) then None
           else if sz \<le> 3 then Some 3
           else if \<not> continuation (s ! 3) then None
           else Some 4))"

text \<open>
  The bytes below \<open>0x80\<close> that \<^verbatim>\<open>htmlSafeSet\<close> lets through unescaped, and the escape of
  the others (\<^verbatim>\<open>json.Marshal\<close> escapes for HTML).
\<close>

definition htmlSafe :: "nat \<Rightarrow> bool" where
  "htmlSafe b = (0x20 \<le> b \<and> b < 0x80 \<and> b \<noteq> 0x22 \<and> b \<noteq> 0x26 \<and> b \<noteq> 0x3C \<and> b \<noteq> 0x3E \<and> b \<noteq> 0x5C)"

definition escapeByte :: "char \<Rightarrow> string" where
  "escapeByte c =
     (let b = of_char c :: nat in
      if b = 0x5C \<or> b = 0x22 then [CHR 0x5C, c]
      else if b = 0x0A then [CHR 0x5C, CHR ''n'']
      else if b = 0x0D then [CHR 0x5C, CHR ''r'']
      else if b = 0x09 then [CHR 0x5C, CHR ''t'']
      else [CHR 0x5C, CHR ''u'', CHR ''0'', CHR ''0'', hexdigit (b div 16), hexdigit (b mod 16)])"

text \<open>
  The loop of \<^verbatim>\<open>encodeState.string\<close> between the two quotes.  The first argument counts
  the bytes of the current sequence that are still to be passed over (the loop's
  \<^verbatim>\<open>i += size\<close>); what the sequence contributes is written at its first byte.  An
  invalid byte is written as the escape of U+FFFD; U+2028 and U+2029 are escaped.
\<close>

fun encodeString :: "nat \<Rightarrow> string \<Rightarrow> string" where
  "encodeString k [] = []"
| "encodeString (Suc k) (c # cs) = encodeString k cs"
| "encodeString 0 (c # cs) =
     (let b = of_char c :: nat in
      if b < 0x80 then
        (if htmlSafe b then [c] else escapeByte c) @ encodeString 0 cs
      else
        (case DecodeRuneInString (map of_char (take 4 (c # cs))) of
           None \<Rightarrow> (CHR 0x5C # ''ufffd'') @ encodeString 0 cs
         | Some n \<Rightarrow>
             (if take n (c # cs) = [CHR 0xE2, CHR 0x80, CHR 0xA8] then CHR 0x5C # ''u2028''
              else if take n (c # cs) = [CHR 0xE2, CHR 0x80, CHR 0xA9] then CHR 0x5C # ''u2029''
              else take n (c # cs)) @ encodeString (n - 1) cs))"

definition json_String :: "string \<Rightarrow> string" where
  "json_String s = CHR 0x22 # encodeString 0 s @ [CHR 0x22]"

text \<open>A nil slice is \<^verbatim>\<open>null\<close>; any other is the array of its strings.\<close>

fun joinComma :: "string list \<Rightarrow> string" where
  "joinComma [] = []"
| "joinComma [x] = x"
| "joinComma (x # y # ys) = x @ '','' @ joinComma (y # ys)"

definition json_Tags :: "string list option \<Rightarrow> string" where
  "json_Tags tags =
     (case tags of None \<Rightarrow> ''null'' | Some ts \<Rightarrow> ''['' @ joinComma (map json_String ts) @ '']'')"

definition json_Key :: "string \<Rightarrow> string" where
  "json_Key name = CHR 0x22 # name @ [CHR 0x22, CHR '':'']"

text \<open>
  \<^verbatim>\<open>json.Marshal\<close> on the anonymous struct: an object with the Go field names as keys, in
  the order of the fields.  \<^verbatim>\<open>marshalTime\<close> is \<^verbatim>\<open>Time.MarshalJSON\<close>, an argument of the
  model; when it fails, \<^verbatim>\<open>json.Marshal\<close> returns an error and no bytes, and
  \<open>ComputeChecksum\<close> discards the error.
\<close>

definition json_Marshal :: "(Time \<Rightarrow> string option) \<Rightarrow> ChecksumData \<Rightarrow> string" where
  "json_Marshal marshalTime data =
     (case marshalTime (cd_CreatedAt data) of
        None \<Rightarrow> []
      | Some createdAt \<Rightarrow>
          ''{'' @ json_Key ''Name'' @ json_String (cd_Name data) @
          '','' @ json_Key ''Type'' @ json_String (cd_Type data) @
          '','' @ json_Key ''Fingerprint'' @ json_String (cd_Fingerprint data) @
          '','' @ json_Key ''Path'' @ json_String (cd_Path data) @
          '','' @ json_Key ''Comment'' @ json_String (cd_Comment data) @
          '','' @ json_Key ''Tags'' @ json_Tags (cd_Tags data) @
          '','' @ json_Key ''CreatedAt'' @ createdAt @ ''}'')"

text \<open>Two keys whose names are one byte each, neither a valid UTF-8 sequence.\<close>

definition invalidNameA :: Key where
  "invalidNameA = Key_zero\<lparr>Name := [CHR 0xFF]\<rparr>"

definition invalidNameB :: Key where
  "invalidNameB = Key_zero\<lparr>Name := [CHR 0xFE]\<rparr>"

text \<open>The struct that \<open>ComputeChecksum\<close> fills from a key.\<close>

definition checksumData :: "Key \<Rightarrow> ChecksumData" where
  "checksumData key =
     \<lparr>cd_Name = Name key, cd_Type = Type key, cd_Fingerprint = Fingerprint key,
      cd_Path = Path key, cd_Comment = Comment key, cd_Tags = Tags key,
      cd_CreatedAt = CreatedAt key\<rparr>"

section \<open>Concrete inputs\<close>

text \<open>Two records of the same name, updated at the same instant, that differ in the fingerprint.\<close>

definition tieLocal :: Key where
  "tieLocal = Key_zero\<lparr>Name := ''work'', Fingerprint := ''SHA256:local'',
     UpdatedAt := \<lparr>instant = 100, location = ''UTC''\<rparr>\<rparr>"

definition tieRemote :: Key where
  "tieRemote = Key_zero\<lparr>Name := ''work'', Fingerprint := ''SHA256:remote'',
     UpdatedAt := \<lparr>instant = 100, location = ''UTC''\<rparr>\<rparr>"

definition emptyState :: SyncState where
  "emptyState = \<lparr>LastSyncTime = Time_zero, ss_DeviceID = '''', KeyChecksums = Map.empty, Changes = []\<rparr>"

text \<open>What \<^verbatim>\<open>NewSyncManager("laptop", StrategyNewerWins)\<close> returns.\<close>

definition exampleManager :: SyncManager where
  "exampleManager = \<lparr>deviceID = ''laptop'', localState = emptyState\<lparr>ss_DeviceID := ''laptop''\<rparr>,
     remoteState = emptyState, strategy = StrategyNewerWins\<rparr>"

definition tieConflict :: ConflictResolution where
  "tieConflict = \<lparr>KeyName = ''work'', LocalKey = tieLocal, RemoteKey = tieRemote,
     Strategy = StrategyNewerWins, ResolvedKey = Key_zero\<rparr>"

text \<open>An operating system on which every step of \<^verbatim>\<open>Save\<close> succeeds, and one whose disk is full.\<close>

definition okOS :: OS where
  "okOS = \<lparr>Dir = (\<lambda>p. ''/home/u/.config/skm''), MkdirAll = (\<lambda>d. None),
     MarshalIndent = (\<lambda>es. Inr ''[]''), WriteFile = (\<lambda>p d. None)\<rparr>"

definition writeFailOS :: OS where
  "writeFailOS = okOS\<lparr>WriteFile := (\<lambda>p d. Some ''no space left on device'')\<rparr>"

definition entryAt :: "string \<Rightarrow> int \<Rightarrow> SyncHistoryEntry" where
  "entryAt i t = \<lparr>ID = i, Timestamp = \<lparr>instant = t, location = ''UTC''\<rparr>, DeviceID = ''laptop'',
     Direction = ''push'', ChangesApplied = 1, ConflictsFound = 0, Success = True, Error = '''',
     he_Changes = [], Duration = 5\<rparr>"

text \<open>An entry whose \<^verbatim>\<open>ID\<close> and \<^verbatim>\<open>Timestamp\<close> the caller left at their zero values.\<close>

definition unsetEntry :: SyncHistoryEntry where
  "unsetEntry = \<lparr>ID = '''', Timestamp = Time_zero, DeviceID = ''laptop'',
     Direction = ''push'', ChangesApplied = 1, ConflictsFound = 0, Success = True, Error = '''',
     he_Changes = [], Duration = 5\<rparr>"

definition historyOf :: "SyncHistoryEntry list \<Rightarrow> int \<Rightarrow> SyncHistory" where
  "historyOf es m = \<lparr>historyFile = ''/home/u/.config/skm/sync-history.json'', entries = es, maxEntries = m\<rparr>"

text \<open>A conflict whose strategy is none of the four named constants.\<close>

definition unknownStrategyConflict :: ConflictResolution where
  "unknownStrategyConflict = tieConflict\<lparr>Strategy := ''merge''\<rparr>"

text \<open>
  A stand-in serialiser and a stand-in digest, to run \<open>ComputeChecksum\<close> on concrete keys,
  and a copy of \<open>tieLocal\<close> that differs from it in the fields the checksum does not read.
\<close>

definition exampleMarshal :: "ChecksumData \<Rightarrow> string" where
  "exampleMarshal d = cd_Name d @ ''|'' @ cd_Type d @ ''|'' @ cd_Fingerprint d @ ''|'' @ cd_Path d @ ''|'' @ cd_Comment d"

definition exampleDigest :: "string \<Rightarrow> 256 word" where
  "exampleDigest bytes = of_nat (length bytes)"

definition installedCopy :: Key where
  "installedCopy = tieLocal\<lparr>Installed := True, PubPath := ''/home/u/.ssh/work.pub'',
     UpdatedAt := \<lparr>instant = 250, location = ''Local''\<rparr>, RSABits := 4096, HasPassphrase := True,
     LastRotatedAt := Some \<lparr>instant = 200, location = ''UTC''\<rparr>, RotatedFrom := ''work-old''\<rparr>"

text \<open>A record held only locally, one held only remotely, and one that both sides hold alike.\<close>

definition onlyLocal :: Key where
  "onlyLocal = Key_zero\<lparr>Name := ''laptop'', Fingerprint := ''SHA256:laptop''\<rparr>"

definition onlyRemote :: Key where
  "onlyRemote = Key_zero\<lparr>Name := ''server'', Fingerprint := ''SHA256:server''\<rparr>"

definition sameBoth :: Key where
  "sameBoth = Key_zero\<lparr>Name := ''shared'', Fingerprint := ''SHA256:shared''\<rparr>"

text \<open>A manager whose snapshots differ: one name changed, one only local, one only remote, one alike.\<close>

definition pendingManager :: SyncManager where
  "pendingManager = exampleManager\<lparr>
     localState := emptyState\<lparr>ss_DeviceID := ''laptop'',
       KeyChecksums := [''work'' \<mapsto> ''abc'', ''laptop'' \<mapsto> ''l1'', ''shared'' \<mapsto> ''s1'']\<rparr>,
     remoteState := emptyState\<lparr>
       KeyChecksums := [''work'' \<mapsto> ''xyz'', ''server'' \<mapsto> ''r1'', ''shared'' \<mapsto> ''s1'']\<rparr>\<rparr>"

definition noon :: Time where
  "noon = \<lparr>instant = 1000, location = ''UTC''\<rparr>"

text \<open>The names that a list of changes writes: those of its create, update and delete changes.\<close>

definition touched :: "KeyChange list \<Rightarrow> string set" where
  "touched changes =
     {Name (kc_Key c) | c. c \<in> set changes \<and>
        (kc_Type c = ChangeTypeCreate \<or> kc_Type c = ChangeTypeUpdate \<or> kc_Type c = ChangeTypeDelete)}"

text \<open>A list of changes: a create, a delete of a held name, a delete of an absent name, an update.\<close>

definition changeOf :: "ChangeType \<Rightarrow> Key \<Rightarrow> KeyChange" where
  "changeOf ty key = \<lparr>kc_Type = ty, kc_Key = key, kc_Timestamp = noon, kc_DeviceID = ''server'',
     kc_Checksum = ''''\<rparr>"

definition exampleChanges :: "KeyChange list" where
  "exampleChanges =
     [changeOf ChangeTypeCreate onlyLocal,
      changeOf ChangeTypeDelete (Key_zero\<lparr>Name := ''shared''\<rparr>),
      changeOf ChangeTypeDelete (Key_zero\<lparr>Name := ''ghost''\<rparr>),
      changeOf ChangeTypeUpdate tieRemote]"

text \<open>
  An operating system on which every step succeeds and whose stand-in for
  \<^verbatim>\<open>json.MarshalIndent\<close> lists the ids of the entries, each in brackets.
\<close>

definition listingOS :: OS where
  "listingOS = okOS\<lparr>MarshalIndent := (\<lambda>es. Inr (concat (map (\<lambda>e. ''['' @ ID e @ '']'') es)))\<rparr>"

section \<open>ResolveConflict: the NewerWins strategy\<close>

lemmas strategy_defs =
  StrategyLocalWins_def StrategyRemoteWins_def StrategyNewerWins_def StrategyManual_def

text \<open>
  Claim C1, as amended.  Under \<open>StrategyNewerWins\<close> the local record is returned, and
  written into \<open>ResolvedKey\<close>, exactly when its \<open>UpdatedAt\<close> is strictly later than the
  remote record's; in every other case, equal instants included, it is the remote record.
\<close>

theorem C1_newer_wins:
  assumes "Strategy conflict = StrategyNewerWins"
  shows "ResolveConflict sm conflict =
          (if instant (UpdatedAt (RemoteKey conflict)) < instant (UpdatedAt (LocalKey conflict))
           then (LocalKey conflict, conflict\<lparr>ResolvedKey := LocalKey conflict\<rparr>)
           else (RemoteKey conflict, conflict\<lparr>ResolvedKey := RemoteKey conflict\<rparr>))"
  using assms by (simp add: ResolveConflict_def After_def strategy_defs Let_def)

theorem C1_newer_wins_witness:
  "Strategy tieConflict = StrategyNewerWins \<and>
   ResolveConflict exampleManager tieConflict = (tieRemote, tieConflict\<lparr>ResolvedKey := tieRemote\<rparr>)"
proof -
  have s: "Strategy tieConflict = StrategyNewerWins" by (simp add: tieConflict_def)
  show ?thesis
    using s C1_newer_wins [OF s, of exampleManager]
    by (simp add: tieConflict_def tieLocal_def tieRemote_def)
qed

text \<open>
  Claim C1 as the specification states it fails: with both records updated at the same
  instant, the \<^verbatim>\<open>else\<close> branch returns the remote record, not the local one.
\<close>

theorem C1_tie_counterexample:
  "Strategy tieConflict = StrategyNewerWins \<and>
   UpdatedAt (LocalKey tieConflict) = UpdatedAt (RemoteKey tieConflict) \<and>
   fst (ResolveConflict exampleManager tieConflict) = RemoteKey tieConflict \<and>
   ResolvedKey (snd (ResolveConflict exampleManager tieConflict)) = RemoteKey tieConflict \<and>
   fst (ResolveConflict exampleManager tieConflict) \<noteq> LocalKey tieConflict"
  by (simp add: ResolveConflict_def After_def strategy_defs Let_def tieConflict_def
      tieLocal_def tieRemote_def Key_zero_def)

section \<open>The sort of the ledger\<close>

lemma mset_insertNewest: "mset (insertNewest e xs) = add_mset e (mset xs)"
  by (induction xs) auto

lemma set_insertNewest: "set (insertNewest e xs) = insert e (set xs)"
  by (induction xs) auto

lemma newestFirst_insertNewest: "newestFirst xs \<Longrightarrow> newestFirst (insertNewest e xs)"
  unfolding newestFirst_def
  by (induction xs) (auto simp: set_insertNewest After_def)

lemma mset_insertionSort: "mset (insertionSort xs) = mset xs"
  unfolding insertionSort_def by (induction xs) (auto simp: mset_insertNewest)

lemma newestFirst_insertionSort: "newestFirst (insertionSort xs)"
  unfolding insertionSort_def
  by (induction xs) (auto simp: newestFirst_insertNewest, simp add: newestFirst_def)

lemma sortsNewestFirst_insertionSort: "sortsNewestFirst insertionSort"
  by (simp add: sortsNewestFirst_def mset_insertionSort newestFirst_insertionSort)

lemma srt_mset: "sortsNewestFirst srt \<Longrightarrow> mset (srt xs) = mset xs"
  by (simp add: sortsNewestFirst_def)

lemma srt_set: "sortsNewestFirst srt \<Longrightarrow> set (srt xs) = set xs"
  using srt_mset mset_eq_setD by blast

lemma srt_length: "sortsNewestFirst srt \<Longrightarrow> length (srt xs) = length xs"
  using srt_mset mset_eq_length by blast

lemma srt_newestFirst: "sortsNewestFirst srt \<Longrightarrow> newestFirst (srt xs)"
  by (simp add: sortsNewestFirst_def)

text \<open>When the instants of a list strictly decrease, it is the only outcome of the sort.\<close>

lemma srt_unique:
  assumes srt: "sortsNewestFirst srt"
    and strict: "sorted_wrt (\<lambda>a b. After (Timestamp a) (Timestamp b)) ys"
    and perm: "mset ys = mset xs"
  shows "srt xs = ys"
proof -
  let ?f = "\<lambda>e. instant (Timestamp e)"
  have m: "mset (srt xs) = mset ys" using srt perm by (simp add: srt_mset)
  have s1: "sorted (rev (map ?f (srt xs)))"
    using srt_newestFirst [OF srt, of xs]
    by (simp add: newestFirst_def After_def sorted_wrt_rev sorted_wrt_map sorted_map not_less rev_map)
  have s2': "sorted_wrt (\<lambda>a b. ?f b < ?f a) ys"
    using strict by (simp add: After_def)
  have s2: "sorted (rev (map ?f ys))"
    using sorted_wrt_mono_rel [OF _ s2', of "\<lambda>a b. ?f b \<le> ?f a"]
    by (simp add: sorted_wrt_rev sorted_map rev_map)
  have "mset (rev (map ?f (srt xs))) = mset (rev (map ?f ys))"
    using m by simp
  then have "rev (map ?f (srt xs)) = rev (map ?f ys)"
    using s1 s2 by (metis properties_for_sort)
  then have eq: "map ?f (srt xs) = map ?f ys" by simp
  have "distinct (map ?f ys)"
    using s2' by (induction ys) (auto simp: image_iff)
  then have "inj_on ?f (set ys)" by (simp add: distinct_map)
  moreover have "set (srt xs) = set ys" using m mset_eq_setD by blast
  ultimately have "inj_on ?f (set (srt xs) \<union> set ys)" by simp
  then show ?thesis using eq by (simp add: inj_on_map_eq_map)
qed

section \<open>GetRecent\<close>

lemma GetRecent_neg: "n < 0 \<Longrightarrow> GetRecent srt sh n = Inl SliceBoundsOutOfRange"
  by (simp add: GetRecent_def Let_def)

lemma GetRecent_nonneg:
  "0 \<le> n \<Longrightarrow> GetRecent srt sh n =
     Inr (take (nat (min n (int (length (entries sh))))) (srt (entries sh)),
          sh\<lparr>entries := srt (entries sh)\<rparr>)"
  by (auto simp: GetRecent_def Let_def min_def)

lemma GetRecent_sorted:
  assumes "sortsNewestFirst srt" "0 \<le> n"
  shows "GetRecent srt sh n =
     Inr (take (nat n) (srt (entries sh)), sh\<lparr>entries := srt (entries sh)\<rparr>)"
proof -
  have "take (nat (min n (int (length (entries sh))))) (srt (entries sh)) =
        take (nat n) (srt (entries sh))"
    using assms by (simp add: min_def srt_length)
  then show ?thesis using assms(2) by (simp add: GetRecent_nonneg)
qed

text \<open>
  For \<open>n \<ge> 0\<close> the code does what the specification says: the result is the first \<open>n\<close>
  entries of the sorted ledger, newest first; it is empty for \<open>n = 0\<close> and the whole ledger
  when \<open>n\<close> is at least its length; no entry left out is newer than one returned.
\<close>

lemma GetRecent_in_range:
  assumes srt: "sortsNewestFirst srt" and n: "0 \<le> n"
  shows "\<exists>r. GetRecent srt sh n = Inr (r, sh\<lparr>entries := srt (entries sh)\<rparr>) \<and>
           r = take (nat n) (srt (entries sh)) \<and>
           newestFirst r \<and>
           length r = min (nat n) (length (entries sh)) \<and>
           (n = 0 \<longrightarrow> r = []) \<and>
           (int (length (entries sh)) \<le> n \<longrightarrow> r = srt (entries sh) \<and> mset r = mset (entries sh)) \<and>
           list_all (\<lambda>d. list_all (\<lambda>k. \<not> After (Timestamp d) (Timestamp k)) r)
             (drop (nat n) (srt (entries sh)))"
proof -
  let ?ys = "srt (entries sh)"
  let ?k = "nat n"
  have nf: "newestFirst (take ?k ?ys @ drop ?k ?ys)"
    using srt_newestFirst [OF srt, of "entries sh"] by simp
  have 1: "newestFirst (take ?k ?ys)"
    using nf unfolding newestFirst_def sorted_wrt_append by blast
  have 2: "length (take ?k ?ys) = min ?k (length (entries sh))"
    by (simp add: srt_length [OF srt] min.commute)
  have 3: "take ?k ?ys = ?ys \<and> mset (take ?k ?ys) = mset (entries sh)"
    if "int (length (entries sh)) \<le> n"
    using that srt_length [OF srt, of "entries sh"] srt_mset [OF srt, of "entries sh"] by simp
  have 4: "list_all (\<lambda>d. list_all (\<lambda>k. \<not> After (Timestamp d) (Timestamp k)) (take ?k ?ys)) (drop ?k ?ys)"
    using nf unfolding newestFirst_def sorted_wrt_append by (auto simp: list_all_iff)
  show ?thesis
    using GetRecent_sorted [OF srt n, of sh] 1 2 3 4 by auto
qed

text \<open>
  Claim C5 at \<open>n = -1\<close>.  The specification promises an empty list for every \<open>n \<le> 0\<close>;
  the code clamps \<open>n\<close> from above only, so the slice expression \<^verbatim>\<open>sh.entries[:n]\<close>
  panics, whatever the ledger holds.
\<close>

theorem C5_GetRecent_negative_panics:
  "GetRecent srt sh (- 1) = Inl SliceBoundsOutOfRange"
  by (simp add: GetRecent_def Let_def)

section \<open>Save and Add\<close>

lemma Save_mkdir_fails:
  "MkdirAll os (Dir os (historyFile sh)) = Some err \<Longrightarrow>
   Save os srt sh = Inr (Some (''failed to create history directory: '' @ err), sh)"
  by (simp add: Save_def)

lemma Save_mkdir_ok:
  assumes "MkdirAll os (Dir os (historyFile sh)) = None" "Save os srt sh = Inr (r, sh')"
  shows "sh' = sh\<lparr>entries := take (nat (maxEntries sh)) (srt (entries sh))\<rparr>"
  using assms
  by (auto simp: Save_def Let_def split: if_splits sum.splits option.splits)

lemma Save_returns:
  assumes "MkdirAll os (Dir os (historyFile sh)) = None" "0 \<le> maxEntries sh"
  shows "\<exists>r. Save os srt sh = Inr (r, sh\<lparr>entries := take (nat (maxEntries sh)) (srt (entries sh))\<rparr>)"
  using assms
  by (auto simp: Save_def Let_def split: if_splits sum.splits option.splits)

lemma mset_take_subseteq: "mset (take n xs) \<subseteq># mset xs"
proof -
  have "mset xs = mset (take n xs) + mset (drop n xs)"
    by (metis append_take_drop_id mset_append)
  then show ?thesis by simp
qed

lemma Add_mkdir_fails:
  "MkdirAll os (Dir os (historyFile sh)) = Some err \<Longrightarrow>
   Add os srt sh entry =
     Inr (Some (''failed to create history directory: '' @ err), sh\<lparr>entries := entries sh @ [entry]\<rparr>)"
  by (simp add: Add_def Save_mkdir_fails)

lemma Add_mkdir_ok:
  assumes "MkdirAll os (Dir os (historyFile sh)) = None" "Add os srt sh entry = Inr (r, sh')"
  shows "sh' = sh\<lparr>entries := take (nat (maxEntries sh)) (srt (entries sh @ [entry]))\<rparr>"
  using Save_mkdir_ok [of os "sh\<lparr>entries := entries sh @ [entry]\<rparr>" srt r sh'] assms
  by (simp add: Add_def)

lemma Add_returns:
  assumes "MkdirAll os (Dir os (historyFile sh)) = None" "0 \<le> maxEntries sh"
  shows "\<exists>r. Add os srt sh entry =
           Inr (r, sh\<lparr>entries := take (nat (maxEntries sh)) (srt (entries sh @ [entry]))\<rparr>)"
  using Save_returns [of os "sh\<lparr>entries := entries sh @ [entry]\<rparr>" srt] assms
  by (simp add: Add_def)

lemma Add_entries:
  assumes "Add os srt sh entry = Inr (r, sh')"
  shows "entries sh' = entries sh @ [entry] \<or>
         entries sh' = take (nat (maxEntries sh)) (srt (entries sh @ [entry]))"
proof (cases "MkdirAll os (Dir os (historyFile sh))")
  case None
  then show ?thesis using Add_mkdir_ok [OF None assms] by simp
next
  case (Some err)
  then show ?thesis using assms by (auto simp: Add_mkdir_fails)
qed

lemma Add_keeps_multiset:
  assumes srt: "sortsNewestFirst srt" and add: "Add os srt sh entry = Inr (r, sh')"
  shows "mset (entries sh') \<subseteq># mset (entries sh @ [entry])"
    and "int (length (entries sh)) < maxEntries sh \<Longrightarrow> mset (entries sh') = mset (entries sh @ [entry])"
proof -
  let ?xs = "entries sh @ [entry]"
  let ?k = "nat (maxEntries sh)"
  have sub: "mset (take ?k (srt ?xs)) \<subseteq># mset ?xs"
    using mset_take_subseteq [of ?k "srt ?xs"] srt_mset [OF srt, of ?xs] by simp
  have full: "mset (take ?k (srt ?xs)) = mset ?xs" if "int (length (entries sh)) < maxEntries sh"
  proof -
    have "length (srt ?xs) \<le> ?k" using that by (simp add: srt_length [OF srt])
    then show ?thesis using srt_mset [OF srt, of ?xs] by simp
  qed
  from Add_entries [OF add] show "mset (entries sh') \<subseteq># mset ?xs"
    using sub by auto
  from Add_entries [OF add]
  show "int (length (entries sh)) < maxEntries sh \<Longrightarrow> mset (entries sh') = mset ?xs"
    using full by auto
qed

lemma insertionSort_simps:
  "insertionSort [] = []" "insertionSort (x # xs) = insertNewest x (insertionSort xs)"
  by (simp_all add: insertionSort_def)

text \<open>
  Claim C6, as amended.  \<open>Add\<close> assigns neither a timestamp nor an id: it appends the entry
  as it was passed and saves.  When the history directory cannot be created, the error is
  returned, nothing is marshalled or written, and the ledger is the old entries followed
  by the passed entry.  Otherwise, with \<open>maxEntries\<close> not negative, the list that is kept,
  handed to \<^verbatim>\<open>json.MarshalIndent\<close> and written to the history file is the first
  \<open>maxEntries\<close> entries of the sorted old entries and passed entry; each of them is an old
  entry or the passed entry, unchanged.  The passed entry is among them when the ledger held
  fewer than \<open>maxEntries\<close> entries; on a full ledger the list is cut to \<open>maxEntries\<close>.
\<close>

theorem C6_Add_stores_entry_as_passed:
  assumes srt: "sortsNewestFirst srt"
  shows "Add os srt sh entry =
           (case MkdirAll os (Dir os (historyFile sh)) of
              Some err \<Rightarrow>
                Inr (Some (''failed to create history directory: '' @ err),
                     sh\<lparr>entries := entries sh @ [entry]\<rparr>)
            | None \<Rightarrow>
                if maxEntries sh < 0 then Inl SliceBoundsOutOfRange
                else
                  (let kept = take (nat (maxEntries sh)) (srt (entries sh @ [entry])) in
                   case MarshalIndent os kept of
                     Inl err \<Rightarrow> Inr (Some (''failed to marshal history: '' @ err), sh\<lparr>entries := kept\<rparr>)
                   | Inr data \<Rightarrow>
                       (case WriteFile os (historyFile sh) data of
                          Some err \<Rightarrow>
                            Inr (Some (''failed to write history file: '' @ err), sh\<lparr>entries := kept\<rparr>)
                        | None \<Rightarrow> Inr (None, sh\<lparr>entries := kept\<rparr>)))) \<and>
         mset (take (nat (maxEntries sh)) (srt (entries sh @ [entry]))) \<subseteq># mset (entries sh @ [entry]) \<and>
         (int (length (entries sh)) < maxEntries sh \<longrightarrow>
            mset (take (nat (maxEntries sh)) (srt (entries sh @ [entry]))) = mset (entries sh @ [entry])) \<and>
         (0 \<le> maxEntries sh \<and> maxEntries sh \<le> int (length (entries sh)) \<longrightarrow>
            length (take (nat (maxEntries sh)) (srt (entries sh @ [entry]))) = nat (maxEntries sh))"
proof -
  let ?xs = "entries sh @ [entry]"
  let ?k = "nat (maxEntries sh)"
  have len: "length (srt ?xs) = Suc (length (entries sh))"
    by (simp add: srt_length [OF srt])
  have tk: "take ?k (srt ?xs) = srt ?xs" if "\<not> int (Suc (length (entries sh))) > maxEntries sh"
    using that len by simp
  have 1: "Add os srt sh entry =
           (case MkdirAll os (Dir os (historyFile sh)) of
              Some err \<Rightarrow>
                Inr (Some (''failed to create history directory: '' @ err),
                     sh\<lparr>entries := entries sh @ [entry]\<rparr>)
            | None \<Rightarrow>
                if maxEntries sh < 0 then Inl SliceBoundsOutOfRange
                else
                  (let kept = take ?k (srt ?xs) in
                   case MarshalIndent os kept of
                     Inl err \<Rightarrow> Inr (Some (''failed to marshal history: '' @ err), sh\<lparr>entries := kept\<rparr>)
                   | Inr data \<Rightarrow>
                       (case WriteFile os (historyFile sh) data of
                          Some err \<Rightarrow>
                            Inr (Some (''failed to write history file: '' @ err), sh\<lparr>entries := kept\<rparr>)
                        | None \<Rightarrow> Inr (None, sh\<lparr>entries := kept\<rparr>))))"
  proof (cases "MkdirAll os (Dir os (historyFile sh))")
    case (Some err)
    then show ?thesis by (simp add: Add_mkdir_fails)
  next
    case None
    show ?thesis
    proof (cases "int (Suc (length (entries sh))) > maxEntries sh")
      case True
      then show ?thesis using None len
        by (auto simp: Add_def Save_def Let_def split: sum.splits option.splits)
    next
      case False
      then have "\<not> maxEntries sh < 0" by simp
      then show ?thesis using None len False tk [OF False]
        by (auto simp: Add_def Save_def Let_def split: sum.splits option.splits)
    qed
  qed
  have 2: "mset (take ?k (srt ?xs)) \<subseteq># mset ?xs"
    using mset_take_subseteq [of ?k "srt ?xs"] srt_mset [OF srt, of ?xs] by simp
  have 3: "mset (take ?k (srt ?xs)) = mset ?xs" if "int (length (entries sh)) < maxEntries sh"
  proof -
    have "length (srt ?xs) \<le> ?k" using that len by simp
    then show ?thesis using srt_mset [OF srt, of ?xs] by simp
  qed
  have 4: "length (take ?k (srt ?xs)) = ?k"
    if "0 \<le> maxEntries sh \<and> maxEntries sh \<le> int (length (entries sh))"
  proof -
    have "?k \<le> length (srt ?xs)" using that len by linarith
    then show ?thesis by simp
  qed
  show ?thesis using 1 2 3 4 by blast
qed

theorem C6_Add_stores_entry_witness:
  "sortsNewestFirst insertionSort \<and>
   ID unsetEntry = '''' \<and> Timestamp unsetEntry = Time_zero \<and>
   Add listingOS insertionSort (historyOf [entryAt ''sync-1'' 10] 100) unsetEntry =
     Inr (None, historyOf [entryAt ''sync-1'' 10, unsetEntry] 100) \<and>
   MarshalIndent listingOS [entryAt ''sync-1'' 10, unsetEntry] = Inr ''[sync-1][]'' \<and>
   Add listingOS insertionSort (historyOf [entryAt ''sync-1'' 10] 1) unsetEntry =
     Inr (None, historyOf [entryAt ''sync-1'' 10] 1) \<and>
   MarshalIndent listingOS [entryAt ''sync-1'' 10] = Inr ''[sync-1]''"
proof -
  note th = C6_Add_stores_entry_as_passed [OF sortsNewestFirst_insertionSort, THEN conjunct1]
  have s: "insertionSort [entryAt ''sync-1'' 10, unsetEntry] = [entryAt ''sync-1'' 10, unsetEntry]"
    by (simp add: insertionSort_simps entryAt_def unsetEntry_def After_def Time_zero_def)
  have u: "ID unsetEntry = ''''" "Timestamp unsetEntry = Time_zero"
    by (simp_all add: unsetEntry_def)
  have m: "MarshalIndent listingOS [entryAt ''sync-1'' 10, unsetEntry] = Inr ''[sync-1][]''"
      "MarshalIndent listingOS [entryAt ''sync-1'' 10] = Inr ''[sync-1]''"
    by (simp_all add: listingOS_def entryAt_def unsetEntry_def)
  have a: "Add listingOS insertionSort (historyOf [entryAt ''sync-1'' 10] 100) unsetEntry =
     Inr (None, historyOf [entryAt ''sync-1'' 10, unsetEntry] 100)"
    by (simp add: th historyOf_def s listingOS_def okOS_def)
  have b: "Add listingOS insertionSort (historyOf [entryAt ''sync-1'' 10] 1) unsetEntry =
     Inr (None, historyOf [entryAt ''sync-1'' 10] 1)"
    by (simp add: th historyOf_def s listingOS_def okOS_def)
  show ?thesis using sortsNewestFirst_insertionSort u a m b by (intro conjI)
qed

text \<open>
  Claim C6 as the specification states it fails: an entry with no id and no timestamp, added
  to an empty ledger on a working file system, is saved and kept with its \<open>ID\<close> empty and
  its \<open>Timestamp\<close> at the zero time.
\<close>

theorem C6_no_id_no_timestamp_counterexample:
  "ID unsetEntry = '''' \<and> Timestamp unsetEntry = Time_zero \<and>
   sortsNewestFirst insertionSort \<and>
   Add okOS insertionSort (historyOf [] 100) unsetEntry = Inr (None, historyOf [unsetEntry] 100) \<and>
   map ID (entries (historyOf [unsetEntry] 100)) = [''''] \<and>
   map Timestamp (entries (historyOf [unsetEntry] 100)) = [Time_zero]"
  by (simp add: Add_def Save_def Let_def okOS_def historyOf_def insertionSort_simps
      unsetEntry_def sortsNewestFirst_insertionSort)

text \<open>
  Claim C7, as amended.  When \<open>Add\<close> returns an error, the ledger in memory is: the old
  entries followed by the new one, if the directory could not be created; the sorted entries
  cut to \<open>maxEntries\<close>, if the failure came later.  So the new entry is still there whenever
  the ledger had room for it.
\<close>

theorem C7_Add_error_keeps_entry_if_it_fits:
  assumes srt: "sortsNewestFirst srt" and add: "Add os srt sh entry = Inr (Some err, sh')"
  shows "(MkdirAll os (Dir os (historyFile sh)) \<noteq> None \<longrightarrow> entries sh' = entries sh @ [entry]) \<and>
         (MkdirAll os (Dir os (historyFile sh)) = None \<longrightarrow>
            entries sh' = take (nat (maxEntries sh)) (srt (entries sh @ [entry]))) \<and>
         (int (length (entries sh)) < maxEntries sh \<longrightarrow> entry \<in> set (entries sh'))"
proof -
  have 1: "entries sh' = entries sh @ [entry]" if "MkdirAll os (Dir os (historyFile sh)) \<noteq> None"
    using that add by (auto simp: Add_mkdir_fails)
  have 2: "entries sh' = take (nat (maxEntries sh)) (srt (entries sh @ [entry]))"
    if "MkdirAll os (Dir os (historyFile sh)) = None"
    using Add_mkdir_ok [OF that add] by simp
  have 3: "entry \<in> set (entries sh')" if "int (length (entries sh)) < maxEntries sh"
  proof -
    have "mset (entries sh') = mset (entries sh @ [entry])"
      using Add_keeps_multiset(2) [OF srt add that] .
    then have "set (entries sh') = set (entries sh @ [entry])" by (rule mset_eq_setD)
    then show ?thesis by simp
  qed
  show ?thesis using 1 2 3 by blast
qed

theorem C7_Add_error_witness:
  "sortsNewestFirst insertionSort \<and>
   Add writeFailOS insertionSort (historyOf [entryAt ''sync-1'' 10] 5) (entryAt ''sync-2'' 20) =
     Inr (Some ''failed to write history file: no space left on device'',
          historyOf [entryAt ''sync-2'' 20, entryAt ''sync-1'' 10] 5) \<and>
   MkdirAll writeFailOS (Dir writeFailOS (historyFile (historyOf [entryAt ''sync-1'' 10] 5))) = None \<and>
   int (length (entries (historyOf [entryAt ''sync-1'' 10] 5))) < maxEntries (historyOf [entryAt ''sync-1'' 10] 5) \<and>
   entryAt ''sync-2'' 20 \<in> set (entries (historyOf [entryAt ''sync-2'' 20, entryAt ''sync-1'' 10] 5))"
proof -
  have a: "Add writeFailOS insertionSort (historyOf [entryAt ''sync-1'' 10] 5) (entryAt ''sync-2'' 20) =
     Inr (Some ''failed to write history file: no space left on device'',
          historyOf [entryAt ''sync-2'' 20, entryAt ''sync-1'' 10] 5)"
    by (simp add: Add_def Save_def Let_def writeFailOS_def okOS_def historyOf_def insertionSort_simps
        entryAt_def After_def)
  have b: "MkdirAll writeFailOS (Dir writeFailOS (historyFile (historyOf [entryAt ''sync-1'' 10] 5))) = None"
    by (simp add: writeFailOS_def okOS_def)
  have c: "int (length (entries (historyOf [entryAt ''sync-1'' 10] 5))) < maxEntries (historyOf [entryAt ''sync-1'' 10] 5)"
    by (simp add: historyOf_def)
  have "entryAt ''sync-2'' 20 \<in> set (entries (historyOf [entryAt ''sync-2'' 20, entryAt ''sync-1'' 10] 5))"
    using C7_Add_error_keeps_entry_if_it_fits [OF sortsNewestFirst_insertionSort a] c by blast
  then show ?thesis
    using a b c sortsNewestFirst_insertionSort by blast
qed

text \<open>
  Claim C7 as the specification states it fails: \<open>Save\<close> sorts and truncates the list in
  memory before it writes.  With room for one entry, adding an entry older than the one held
  drops the new entry, and the failed write leaves the ledger without it.
\<close>

theorem C7_entry_lost_counterexample:
  "sortsNewestFirst insertionSort \<and>
   Add writeFailOS insertionSort (historyOf [entryAt ''sync-2'' 20] 1) (entryAt ''sync-1'' 10) =
     Inr (Some ''failed to write history file: no space left on device'',
          historyOf [entryAt ''sync-2'' 20] 1) \<and>
   entryAt ''sync-1'' 10 \<notin> set (entries (historyOf [entryAt ''sync-2'' 20] 1))"
  by (simp add: Add_def Save_def Let_def writeFailOS_def okOS_def historyOf_def insertionSort_simps
      entryAt_def After_def sortsNewestFirst_insertionSort)

section \<open>Retention of the ledger\<close>

lemma Save_sorts_and_truncates:
  assumes srt: "sortsNewestFirst srt"
    and mk: "MkdirAll os (Dir os (historyFile sh)) = None" and mx: "0 \<le> maxEntries sh"
  shows "\<exists>r sh'. Save os srt sh = Inr (r, sh') \<and>
           entries sh' = take (nat (maxEntries sh)) (srt (entries sh)) \<and>
           newestFirst (entries sh') \<and>
           length (entries sh') = min (length (entries sh)) (nat (maxEntries sh)) \<and>
           mset (entries sh') + mset (drop (nat (maxEntries sh)) (srt (entries sh))) = mset (entries sh) \<and>
           list_all (\<lambda>d. list_all (\<lambda>k. \<not> After (Timestamp d) (Timestamp k)) (entries sh'))
             (drop (nat (maxEntries sh)) (srt (entries sh)))"
proof -
  let ?k = "nat (maxEntries sh)"
  let ?ys = "srt (entries sh)"
  obtain r where r: "Save os srt sh = Inr (r, sh\<lparr>entries := take ?k ?ys\<rparr>)"
    using Save_returns [OF mk mx] by blast
  have nf: "newestFirst (take ?k ?ys @ drop ?k ?ys)"
    using srt_newestFirst [OF srt, of "entries sh"] by simp
  have 1: "newestFirst (take ?k ?ys)"
    using nf unfolding newestFirst_def sorted_wrt_append by blast
  have 2: "length (take ?k ?ys) = min (length (entries sh)) ?k"
    by (simp add: srt_length [OF srt])
  have 3: "mset (take ?k ?ys) + mset (drop ?k ?ys) = mset (entries sh)"
    using srt_mset [OF srt, of "entries sh"] by (metis append_take_drop_id mset_append)
  have 4: "list_all (\<lambda>d. list_all (\<lambda>k. \<not> After (Timestamp d) (Timestamp k)) (take ?k ?ys)) (drop ?k ?ys)"
    using nf unfolding newestFirst_def sorted_wrt_append by (auto simp: list_all_iff)
  show ?thesis using r 1 2 3 4 by simp
qed

lemma srt_single: "sortsNewestFirst srt \<Longrightarrow> srt [a] = [a]"
  by (rule srt_unique) simp_all

lemma Add_first:
  assumes srt: "sortsNewestFirst srt" and mk: "MkdirAll os (Dir os f) = None"
  shows "\<exists>r. Add os srt \<lparr>historyFile = f, entries = [], maxEntries = 2\<rparr> a =
           Inr (r, \<lparr>historyFile = f, entries = [a], maxEntries = 2\<rparr>)"
  using Add_returns [of os "\<lparr>historyFile = f, entries = [], maxEntries = 2\<rparr>" srt a] mk
  by (simp add: srt_single [OF srt])

lemma Add_second:
  assumes srt: "sortsNewestFirst srt" and mk: "MkdirAll os (Dir os f) = None"
    and lt: "instant (Timestamp a) < instant (Timestamp b)"
  shows "\<exists>r. Add os srt \<lparr>historyFile = f, entries = [a], maxEntries = 2\<rparr> b =
           Inr (r, \<lparr>historyFile = f, entries = [b, a], maxEntries = 2\<rparr>)"
proof -
  have "srt [a, b] = [b, a]"
    using lt by (intro srt_unique [OF srt]) (simp_all add: After_def)
  then show ?thesis
    using Add_returns [of os "\<lparr>historyFile = f, entries = [a], maxEntries = 2\<rparr>" srt b] mk
    by simp
qed

lemma Add_third:
  assumes srt: "sortsNewestFirst srt" and mk: "MkdirAll os (Dir os f) = None"
    and lt: "instant (Timestamp a) < instant (Timestamp b)" "instant (Timestamp b) < instant (Timestamp c)"
  shows "\<exists>r. Add os srt \<lparr>historyFile = f, entries = [b, a], maxEntries = 2\<rparr> c =
           Inr (r, \<lparr>historyFile = f, entries = [c, b], maxEntries = 2\<rparr>)"
proof -
  have "srt [b, a, c] = [c, b, a]"
    using lt by (intro srt_unique [OF srt]) (simp_all add: After_def)
  then show ?thesis
    using Add_returns [of os "\<lparr>historyFile = f, entries = [b, a], maxEntries = 2\<rparr>" srt c] mk
    by (simp add: numeral_2_eq_2)
qed

lemma GetRecent_two:
  assumes srt: "sortsNewestFirst srt" and lt: "instant (Timestamp b) < instant (Timestamp c)"
  shows "GetRecent srt \<lparr>historyFile = f, entries = [c, b], maxEntries = 2\<rparr> 10 =
           Inr ([c, b], \<lparr>historyFile = f, entries = [c, b], maxEntries = 2\<rparr>)"
proof -
  have "srt [c, b] = [c, b]"
    using lt by (intro srt_unique [OF srt]) (simp_all add: After_def)
  then show ?thesis by (simp add: GetRecent_nonneg)
qed

text \<open>
  Claim C9.  First part: a fresh ledger that keeps at most 2 entries receives three entries
  with strictly increasing timestamps; if the history directory can be created at each
  \<open>Add\<close> (whether the later marshal and write succeed does not matter), \<open>GetRecent 10\<close>
  returns exactly the last two, newest first.  Second part: a \<open>Save\<close> that gets past the
  directory creation leaves the entries sorted newest first and cut to \<open>maxEntries\<close>; the
  entries it drops are no newer than any entry it keeps.
\<close>

theorem C9_history_truncation:
  assumes srt: "sortsNewestFirst srt"
  shows "(instant (Timestamp e1) < instant (Timestamp e2) \<and>
          instant (Timestamp e2) < instant (Timestamp e3) \<and>
          MkdirAll os1 (Dir os1 f) = None \<and> MkdirAll os2 (Dir os2 f) = None \<and>
          MkdirAll os3 (Dir os3 f) = None \<longrightarrow>
          (\<exists>r1 r2 r3 sh1 sh2 sh3.
             Add os1 srt \<lparr>historyFile = f, entries = [], maxEntries = 2\<rparr> e1 = Inr (r1, sh1) \<and>
             Add os2 srt sh1 e2 = Inr (r2, sh2) \<and>
             Add os3 srt sh2 e3 = Inr (r3, sh3) \<and>
             GetRecent srt sh3 10 = Inr ([e3, e2], sh3))) \<and>
         (MkdirAll os (Dir os (historyFile sh)) = None \<and> 0 \<le> maxEntries sh \<longrightarrow>
          (\<exists>r sh'. Save os srt sh = Inr (r, sh') \<and>
             entries sh' = take (nat (maxEntries sh)) (srt (entries sh)) \<and>
             newestFirst (entries sh') \<and>
             length (entries sh') = min (length (entries sh)) (nat (maxEntries sh)) \<and>
             mset (entries sh') + mset (drop (nat (maxEntries sh)) (srt (entries sh))) = mset (entries sh) \<and>
             list_all (\<lambda>d. list_all (\<lambda>k. \<not> After (Timestamp d) (Timestamp k)) (entries sh'))
               (drop (nat (maxEntries sh)) (srt (entries sh)))))"
proof (intro conjI impI)
  assume h: "instant (Timestamp e1) < instant (Timestamp e2) \<and>
          instant (Timestamp e2) < instant (Timestamp e3) \<and>
          MkdirAll os1 (Dir os1 f) = None \<and> MkdirAll os2 (Dir os2 f) = None \<and>
          MkdirAll os3 (Dir os3 f) = None"
  then have lt: "instant (Timestamp e1) < instant (Timestamp e2)"
      "instant (Timestamp e2) < instant (Timestamp e3)"
    and m1: "MkdirAll os1 (Dir os1 f) = None" and m2: "MkdirAll os2 (Dir os2 f) = None"
    and m3: "MkdirAll os3 (Dir os3 f) = None"
    by simp_all
  obtain r1 where 1: "Add os1 srt \<lparr>historyFile = f, entries = [], maxEntries = 2\<rparr> e1 =
      Inr (r1, \<lparr>historyFile = f, entries = [e1], maxEntries = 2\<rparr>)"
    using Add_first [OF srt m1] ..
  obtain r2 where 2: "Add os2 srt \<lparr>historyFile = f, entries = [e1], maxEntries = 2\<rparr> e2 =
      Inr (r2, \<lparr>historyFile = f, entries = [e2, e1], maxEntries = 2\<rparr>)"
    using Add_second [OF srt m2 lt(1)] ..
  obtain r3 where 3: "Add os3 srt \<lparr>historyFile = f, entries = [e2, e1], maxEntries = 2\<rparr> e3 =
      Inr (r3, \<lparr>historyFile = f, entries = [e3, e2], maxEntries = 2\<rparr>)"
    using Add_third [OF srt m3 lt] ..
  have 4: "GetRecent srt \<lparr>historyFile = f, entries = [e3, e2], maxEntries = 2\<rparr> 10 =
      Inr ([e3, e2], \<lparr>historyFile = f, entries = [e3, e2], maxEntries = 2\<rparr>)"
    using GetRecent_two [OF srt lt(2)] .
  show "\<exists>r1 r2 r3 sh1 sh2 sh3.
             Add os1 srt \<lparr>historyFile = f, entries = [], maxEntries = 2\<rparr> e1 = Inr (r1, sh1) \<and>
             Add os2 srt sh1 e2 = Inr (r2, sh2) \<and>
             Add os3 srt sh2 e3 = Inr (r3, sh3) \<and>
             GetRecent srt sh3 10 = Inr ([e3, e2], sh3)"
    using 1 2 3 4 by blast
next
  assume "MkdirAll os (Dir os (historyFile sh)) = None \<and> 0 \<le> maxEntries sh"
  then show "\<exists>r sh'. Save os srt sh = Inr (r, sh') \<and>
             entries sh' = take (nat (maxEntries sh)) (srt (entries sh)) \<and>
             newestFirst (entries sh') \<and>
             length (entries sh') = min (length (entries sh)) (nat (maxEntries sh)) \<and>
             mset (entries sh') + mset (drop (nat (maxEntries sh)) (srt (entries sh))) = mset (entries sh) \<and>
             list_all (\<lambda>d. list_all (\<lambda>k. \<not> After (Timestamp d) (Timestamp k)) (entries sh'))
               (drop (nat (maxEntries sh)) (srt (entries sh)))"
    using Save_sorts_and_truncates [OF srt, of os sh] by blast
qed

theorem C9_history_truncation_witness:
  "sortsNewestFirst insertionSort \<and>
   instant (Timestamp (entryAt ''sync-1'' 10)) < instant (Timestamp (entryAt ''sync-2'' 20)) \<and>
   instant (Timestamp (entryAt ''sync-2'' 20)) < instant (Timestamp (entryAt ''sync-3'' 30)) \<and>
   MkdirAll okOS (Dir okOS ''h.json'') = None \<and>
   MkdirAll writeFailOS (Dir writeFailOS ''h.json'') = None \<and>
   (\<exists>r1 r2 r3 sh1 sh2 sh3.
      Add okOS insertionSort \<lparr>historyFile = ''h.json'', entries = [], maxEntries = 2\<rparr>
        (entryAt ''sync-1'' 10) = Inr (r1, sh1) \<and>
      Add writeFailOS insertionSort sh1 (entryAt ''sync-2'' 20) = Inr (r2, sh2) \<and>
      Add okOS insertionSort sh2 (entryAt ''sync-3'' 30) = Inr (r3, sh3) \<and>
      GetRecent insertionSort sh3 10 = Inr ([entryAt ''sync-3'' 30, entryAt ''sync-2'' 20], sh3)) \<and>
   MkdirAll okOS (Dir okOS (historyFile (historyOf [entryAt ''sync-1'' 10, entryAt ''sync-3'' 30] 1))) = None \<and>
   0 \<le> maxEntries (historyOf [entryAt ''sync-1'' 10, entryAt ''sync-3'' 30] 1) \<and>
   (\<exists>r sh'. Save okOS insertionSort (historyOf [entryAt ''sync-1'' 10, entryAt ''sync-3'' 30] 1) = Inr (r, sh') \<and>
      entries sh' = [entryAt ''sync-3'' 30])"
proof -
  have lt: "instant (Timestamp (entryAt ''sync-1'' 10)) < instant (Timestamp (entryAt ''sync-2'' 20))"
      "instant (Timestamp (entryAt ''sync-2'' 20)) < instant (Timestamp (entryAt ''sync-3'' 30))"
    by (simp_all add: entryAt_def)
  have mk: "MkdirAll okOS (Dir okOS ''h.json'') = None"
      "MkdirAll writeFailOS (Dir writeFailOS ''h.json'') = None"
      "MkdirAll okOS (Dir okOS (historyFile (historyOf [entryAt ''sync-1'' 10, entryAt ''sync-3'' 30] 1))) = None"
    by (simp_all add: okOS_def writeFailOS_def)
  have mx: "0 \<le> maxEntries (historyOf [entryAt ''sync-1'' 10, entryAt ''sync-3'' 30] 1)"
    by (simp add: historyOf_def)
  have srt1: "take (nat (maxEntries (historyOf [entryAt ''sync-1'' 10, entryAt ''sync-3'' 30] 1)))
                (insertionSort (entries (historyOf [entryAt ''sync-1'' 10, entryAt ''sync-3'' 30] 1))) =
              [entryAt ''sync-3'' 30]"
    by (simp add: historyOf_def insertionSort_simps entryAt_def After_def)
  note th = C9_history_truncation [OF sortsNewestFirst_insertionSort,
      where ?e1.0 = "entryAt ''sync-1'' 10" and ?e2.0 = "entryAt ''sync-2'' 20"
        and ?e3.0 = "entryAt ''sync-3'' 30" and ?os1.0 = okOS and ?os2.0 = writeFailOS
        and ?os3.0 = okOS and f = "''h.json''" and os = okOS
        and sh = "historyOf [entryAt ''sync-1'' 10, entryAt ''sync-3'' 30] 1"]
  have a: "\<exists>r1 r2 r3 sh1 sh2 sh3.
      Add okOS insertionSort \<lparr>historyFile = ''h.json'', entries = [], maxEntries = 2\<rparr>
        (entryAt ''sync-1'' 10) = Inr (r1, sh1) \<and>
      Add writeFailOS insertionSort sh1 (entryAt ''sync-2'' 20) = Inr (r2, sh2) \<and>
      Add okOS insertionSort sh2 (entryAt ''sync-3'' 30) = Inr (r3, sh3) \<and>
      GetRecent insertionSort sh3 10 = Inr ([entryAt ''sync-3'' 30, entryAt ''sync-2'' 20], sh3)"
    using th lt mk by blast
  have b: "\<exists>r sh'. Save okOS insertionSort (historyOf [entryAt ''sync-1'' 10, entryAt ''sync-3'' 30] 1) = Inr (r, sh') \<and>
      entries sh' = [entryAt ''sync-3'' 30]"
    using th mk(3) mx srt1 by metis
  show ?thesis
    using sortsNewestFirst_insertionSort lt mk mx a b by blast
qed

section \<open>ComputeChecksum: what the checksum depends on\<close>

lemma length_hex_EncodeToString: "length (hex_EncodeToString h) = 64"
  by (simp add: hex_EncodeToString_def)

lemma hexdigit_inj:
  assumes "hexdigit a = hexdigit b"
  shows "a mod 16 = b mod 16"
proof -
  have d: "distinct ''0123456789abcdef''" by simp
  have "a mod 16 < length ''0123456789abcdef''" "b mod 16 < length ''0123456789abcdef''"
    by simp_all
  then show ?thesis
    using assms d unfolding hexdigit_def by (simp only: nth_eq_iff_index_eq)
qed

lemma nibble_bit:
  assumes "m < 4"
  shows "bit (unat (drop_bit k (h :: 256 word)) mod 16) m = bit h (k + m)"
proof -
  have "unat (drop_bit k h) mod 16 = take_bit 4 (unat (drop_bit k h))"
    by (simp add: take_bit_eq_mod)
  then show ?thesis
    using assms by (simp add: bit_take_bit_iff bit_unsigned_iff bit_drop_bit_eq add.commute)
qed

lemma hex_EncodeToString_nth:
  "i < 64 \<Longrightarrow> hex_EncodeToString h ! i = hexdigit (unat (drop_bit (4 * (63 - i)) h) mod 16)"
  unfolding hex_EncodeToString_def by (simp only: nth_map length_upt diff_zero nth_upt add_0)

lemma hex_EncodeToString_inj:
  assumes "hex_EncodeToString h = hex_EncodeToString h'"
  shows "h = h'"
proof (rule bit_word_eqI)
  fix n
  assume "n < LENGTH(256)"
  then have n: "n < 256" by simp
  define i where "i = 63 - n div 4"
  have i: "i < 64" by (simp add: i_def)
  have m: "n mod 4 < 4" by simp
  have k: "4 * (63 - i) = 4 * (n div 4)" using n by (simp add: i_def)
  have "hex_EncodeToString h ! i = hex_EncodeToString h' ! i" using assms by simp
  then have "hexdigit (unat (drop_bit (4 * (n div 4)) h) mod 16) =
             hexdigit (unat (drop_bit (4 * (n div 4)) h') mod 16)"
    by (simp only: hex_EncodeToString_nth [OF i] k)
  then have "(unat (drop_bit (4 * (n div 4)) h) mod 16) mod 16 =
             (unat (drop_bit (4 * (n div 4)) h') mod 16) mod 16"
    by (rule hexdigit_inj)
  then have "unat (drop_bit (4 * (n div 4)) h) mod 16 = unat (drop_bit (4 * (n div 4)) h') mod 16"
    by (simp only: mod_mod_trivial)
  then have "bit (unat (drop_bit (4 * (n div 4)) h) mod 16) (n mod 4) =
             bit (unat (drop_bit (4 * (n div 4)) h') mod 16) (n mod 4)"
    by (rule arg_cong)
  then have "bit h (4 * (n div 4) + n mod 4) = bit h' (4 * (n div 4) + n mod 4)"
    using m by (simp only: nibble_bit)
  then show "bit h n = bit h' n" by (simp only: mult_div_mod_eq)
qed

lemma ComputeChecksum_eq:
  "ComputeChecksum marshal sha256 key = hex_EncodeToString (sha256 (marshal (checksumData key)))"
  by (simp add: ComputeChecksum_def checksumData_def)

lemma checksumData_eq_iff:
  "checksumData a = checksumData b \<longleftrightarrow>
     Name a = Name b \<and> Type a = Type b \<and> Fingerprint a = Fingerprint b \<and> Path a = Path b \<and>
     Comment a = Comment b \<and> Tags a = Tags b \<and> CreatedAt a = CreatedAt b"
  by (auto simp: checksumData_def)

lemma ComputeChecksum_eq_iff:
  "ComputeChecksum marshal sha256 a = ComputeChecksum marshal sha256 b \<longleftrightarrow>
     sha256 (marshal (checksumData a)) = sha256 (marshal (checksumData b))"
  using hex_EncodeToString_inj by (auto simp: ComputeChecksum_eq)

text \<open>
  Claim C4, as amended.  Two keys that agree on \<open>Name\<close>, \<open>Type\<close>, \<open>Fingerprint\<close>, \<open>Path\<close>,
  \<open>Comment\<close>, \<open>Tags\<close> and \<open>CreatedAt\<close> have the same checksum, whatever \<open>Installed\<close>,
  \<open>UpdatedAt\<close>, \<open>PubPath\<close>, \<open>RSABits\<close>, \<open>HasPassphrase\<close> and the rotation fields hold, and the
  checksum is a string of 64 characters.  Two keys have the same checksum exactly when the
  digests of their serialised qualifying fields are equal: a change to a qualifying field
  changes the checksum if and only if it changes that digest.  This holds for every
  serialiser and every digest.
\<close>

theorem C4_checksum_depends_on_qualifying_fields_only:
  "(Name a = Name b \<and> Type a = Type b \<and> Fingerprint a = Fingerprint b \<and> Path a = Path b \<and>
    Comment a = Comment b \<and> Tags a = Tags b \<and> CreatedAt a = CreatedAt b \<longrightarrow>
      ComputeChecksum marshal sha256 a = ComputeChecksum marshal sha256 b \<and>
      ComputeChecksum marshal sha256
        (a\<lparr>Installed := i, UpdatedAt := u, PubPath := p, RSABits := n, HasPassphrase := h,
           LastRotatedAt := l, RotationDueAt := d, RotatedFrom := f\<rparr>) =
      ComputeChecksum marshal sha256 b) \<and>
   (ComputeChecksum marshal sha256 a = ComputeChecksum marshal sha256 b \<longleftrightarrow>
      sha256 (marshal (checksumData a)) = sha256 (marshal (checksumData b))) \<and>
   (checksumData a = checksumData b \<longleftrightarrow>
      Name a = Name b \<and> Type a = Type b \<and> Fingerprint a = Fingerprint b \<and> Path a = Path b \<and>
      Comment a = Comment b \<and> Tags a = Tags b \<and> CreatedAt a = CreatedAt b) \<and>
   length (ComputeChecksum marshal sha256 a) = 64"
proof -
  have 1: "ComputeChecksum marshal sha256 a = ComputeChecksum marshal sha256 b \<and>
      ComputeChecksum marshal sha256
        (a\<lparr>Installed := i, UpdatedAt := u, PubPath := p, RSABits := n, HasPassphrase := h,
           LastRotatedAt := l, RotationDueAt := d, RotatedFrom := f\<rparr>) =
      ComputeChecksum marshal sha256 b"
    if "Name a = Name b \<and> Type a = Type b \<and> Fingerprint a = Fingerprint b \<and> Path a = Path b \<and>
        Comment a = Comment b \<and> Tags a = Tags b \<and> CreatedAt a = CreatedAt b"
    using that by (simp add: ComputeChecksum_def)
  have 4: "length (ComputeChecksum marshal sha256 a) = 64"
    by (simp only: ComputeChecksum_eq length_hex_EncodeToString)
  show ?thesis
    using 1 ComputeChecksum_eq_iff [of marshal sha256 a b] checksumData_eq_iff [of a b] 4
    by blast
qed

lemma exampleDigests_differ:
  "exampleDigest (exampleMarshal (checksumData tieLocal)) \<noteq>
   exampleDigest (exampleMarshal (checksumData tieRemote))"
  by code_simp

theorem C4_checksum_witness:
  "Name tieLocal = Name installedCopy \<and> Type tieLocal = Type installedCopy \<and>
   Fingerprint tieLocal = Fingerprint installedCopy \<and> Path tieLocal = Path installedCopy \<and>
   Comment tieLocal = Comment installedCopy \<and> Tags tieLocal = Tags installedCopy \<and>
   CreatedAt tieLocal = CreatedAt installedCopy \<and>
   Installed tieLocal \<noteq> Installed installedCopy \<and>
   UpdatedAt tieLocal \<noteq> UpdatedAt installedCopy \<and>
   ComputeChecksum exampleMarshal exampleDigest tieLocal =
     ComputeChecksum exampleMarshal exampleDigest installedCopy \<and>
   exampleDigest (exampleMarshal (checksumData tieLocal)) \<noteq>
     exampleDigest (exampleMarshal (checksumData tieRemote)) \<and>
   ComputeChecksum exampleMarshal exampleDigest tieLocal \<noteq>
     ComputeChecksum exampleMarshal exampleDigest tieRemote"
proof -
  have q: "Name tieLocal = Name installedCopy" "Type tieLocal = Type installedCopy"
    "Fingerprint tieLocal = Fingerprint installedCopy" "Path tieLocal = Path installedCopy"
    "Comment tieLocal = Comment installedCopy" "Tags tieLocal = Tags installedCopy"
    "CreatedAt tieLocal = CreatedAt installedCopy"
    by (simp_all add: installedCopy_def)
  have v: "Installed tieLocal \<noteq> Installed installedCopy" "UpdatedAt tieLocal \<noteq> UpdatedAt installedCopy"
    by (simp_all add: installedCopy_def tieLocal_def Key_zero_def)
  have e: "ComputeChecksum exampleMarshal exampleDigest tieLocal =
     ComputeChecksum exampleMarshal exampleDigest installedCopy"
    using C4_checksum_depends_on_qualifying_fields_only
      [of tieLocal installedCopy exampleMarshal exampleDigest] q by blast
  have n: "ComputeChecksum exampleMarshal exampleDigest tieLocal \<noteq>
     ComputeChecksum exampleMarshal exampleDigest tieRemote"
    using C4_checksum_depends_on_qualifying_fields_only
      [of tieLocal tieRemote exampleMarshal exampleDigest] exampleDigests_differ by blast
  show ?thesis using q v e exampleDigests_differ n by (intro conjI)
qed

lemma json_String_invalid:
  "json_String [CHR 0xFF] = CHR 0x22 # CHR 0x5C # ''ufffd'' @ [CHR 0x22]"
  "json_String [CHR 0xFE] = CHR 0x22 # CHR 0x5C # ''ufffd'' @ [CHR 0x22]"
  by (simp_all add: json_String_def DecodeRuneInString_def seqLen_def)

text \<open>
  Claim C4 as the specification states it fails in its last part, that any change to a
  qualifying field changes the checksum.  The names \<^verbatim>\<open>"\xff"\<close> and \<^verbatim>\<open>"\xfe"\<close> differ,
  but neither byte is valid UTF-8 and \<^verbatim>\<open>json.Marshal\<close> writes each as the escape of
  U+FFFD: the two keys serialise to the same bytes and have the same checksum, whatever
  \<^verbatim>\<open>Time.MarshalJSON\<close> and \<^verbatim>\<open>sha256.Sum256\<close> compute.
\<close>

theorem C4_invalid_utf8_counterexample:
  "Name invalidNameA \<noteq> Name invalidNameB \<and>
   json_String (Name invalidNameA) = CHR 0x22 # CHR 0x5C # ''ufffd'' @ [CHR 0x22] \<and>
   json_String (Name invalidNameB) = CHR 0x22 # CHR 0x5C # ''ufffd'' @ [CHR 0x22] \<and>
   (\<forall>marshalTime sha256.
      json_Marshal marshalTime (checksumData invalidNameA) =
        json_Marshal marshalTime (checksumData invalidNameB) \<and>
      ComputeChecksum (json_Marshal marshalTime) sha256 invalidNameA =
        ComputeChecksum (json_Marshal marshalTime) sha256 invalidNameB)"
proof -
  have n: "Name invalidNameA = [CHR 0xFF]" "Name invalidNameB = [CHR 0xFE]"
    by (simp_all add: invalidNameA_def invalidNameB_def)
  have m: "json_Marshal marshalTime (checksumData invalidNameA) =
           json_Marshal marshalTime (checksumData invalidNameB)" for marshalTime
    by (simp add: json_Marshal_def checksumData_def invalidNameA_def invalidNameB_def
        json_String_invalid split: option.splits)
  have c: "ComputeChecksum (json_Marshal marshalTime) sha256 invalidNameA =
           ComputeChecksum (json_Marshal marshalTime) sha256 invalidNameB" for marshalTime sha256
    by (simp only: ComputeChecksum_eq m)
  show ?thesis using n json_String_invalid m c by simp
qed

text \<open>
  Below the serialisation, the digest itself must collide: it has 256 bits and there are
  infinitely many names.
\<close>

lemma ComputeChecksum_not_injective:
  "\<forall>marshal sha256. \<exists>a b. Name a \<noteq> Name b \<and>
     ComputeChecksum marshal sha256 a = ComputeChecksum marshal sha256 b"
proof (intro allI)
  fix marshal :: "ChecksumData \<Rightarrow> string" and sha256 :: "string \<Rightarrow> 256 word"
  let ?key = "\<lambda>n::nat. Key_zero\<lparr>Name := replicate n CHR ''a''\<rparr>"
  let ?digest = "\<lambda>n. sha256 (marshal (checksumData (?key n)))"
  have "finite (range ?digest)" by simp
  then have "\<not> inj ?digest" using finite_imageD infinite_UNIV_nat by blast
  then obtain n m where nm: "n \<noteq> m" "?digest n = ?digest m"
    unfolding inj_on_def by blast
  have "Name (?key n) \<noteq> Name (?key m)"
  proof
    assume "Name (?key n) = Name (?key m)"
    then have "length (replicate n CHR ''a'') = length (replicate m CHR ''a'')" by simp
    then show False using nm(1) by simp
  qed
  moreover have "ComputeChecksum marshal sha256 (?key n) = ComputeChecksum marshal sha256 (?key m)"
    using nm(2) by (simp only: ComputeChecksum_eq)
  ultimately show "\<exists>a b. Name a \<noteq> Name b \<and>
     ComputeChecksum marshal sha256 a = ComputeChecksum marshal sha256 b"
    by blast
qed

section \<open>DetectConflicts\<close>

lemma foldl_upd_dom:
  "dom (foldl (\<lambda>m key. m(Name key \<mapsto> key)) m0 keys) = dom m0 \<union> Name ` set keys"
  by (induction keys arbitrary: m0) auto

lemma foldl_upd_Some:
  "foldl (\<lambda>m key. m(Name key \<mapsto> key)) m0 keys n = Some k \<Longrightarrow>
   (k \<in> set keys \<and> Name k = n) \<or> m0 n = Some k"
proof (induction keys arbitrary: m0)
  case Nil
  then show ?case by simp
next
  case (Cons a keys)
  from Cons.IH [of "m0(Name a \<mapsto> a)"] Cons.prems show ?case
    by (auto split: if_splits)
qed

lemma dom_buildKeyMap: "dom (buildKeyMap keys) = Name ` set keys"
  by (simp add: buildKeyMap_def foldl_upd_dom)

lemma buildKeyMap_Some: "buildKeyMap keys n = Some k \<Longrightarrow> k \<in> set keys \<and> Name k = n"
  using foldl_upd_Some [of Map.empty keys n k] by (simp add: buildKeyMap_def)

lemma buildKeyMap_None: "buildKeyMap keys n = None \<longleftrightarrow> n \<notin> Name ` set keys"
  using dom_buildKeyMap [of keys] domIff [of n "buildKeyMap keys"] by blast

text \<open>A loop that appends at most a few elements per name, read off name by name.\<close>

lemma filter_concat_map_distinct:
  assumes "distinct xs" and "\<And>x c. c \<in> set (g x) \<Longrightarrow> key c = x"
  shows "filter (\<lambda>c. key c = n) (concat (map g xs)) = (if n \<in> set xs then g n else [])"
  using assms(1)
proof (induction xs)
  case Nil
  then show ?case by simp
next
  case (Cons x xs)
  have all: "filter (\<lambda>c. key c = n) (g n) = g n"
    using assms(2) by (simp add: filter_id_conv)
  have none: "filter (\<lambda>c. key c = n) (g x) = []" if "x \<noteq> n"
    using assms(2) that by (auto simp: filter_empty_conv)
  show ?case
  proof (cases "x = n")
    case True
    then have "n \<notin> set xs" using Cons.prems by simp
    then show ?thesis using Cons True all by simp
  next
    case False
    then show ?thesis using Cons none by auto
  qed
qed

lemma detectConflict_append:
  "detectConflict ma sh sm L R cs n = cs @ detectConflict ma sh sm L R [] n"
  by (simp add: detectConflict_def Let_def split: option.splits)

lemma foldl_detectConflict:
  "foldl (detectConflict ma sh sm L R) cs order =
   cs @ concat (map (detectConflict ma sh sm L R []) order)"
proof (induction order arbitrary: cs)
  case Nil
  then show ?case by simp
next
  case (Cons n order)
  show ?case
    using Cons [of "detectConflict ma sh sm L R cs n"] detectConflict_append [of ma sh sm L R cs n]
    by simp
qed

lemma detectConflict_KeyName:
  "c \<in> set (detectConflict ma sh sm L R [] n) \<Longrightarrow> KeyName c = n"
  by (auto simp: detectConflict_def Let_def split: option.splits if_splits)

text \<open>
  Claim C8.  Whatever order the loop visits \<open>localMap\<close> in, the conflicts that
  \<open>DetectConflicts\<close> returns for a name are: exactly one, carrying both full records and the
  manager's strategy, when both lists hold a record of that name and the checksums computed
  from the two records differ; none otherwise, so none for a name held on one side only.
  The record of a name is the one \<open>buildKeyMap\<close> keeps, an element of the list with that name.
\<close>

theorem C8_DetectConflicts_per_name:
  assumes "enumerates localOrder (buildKeyMap localKeys)"
  shows "filter (\<lambda>c. KeyName c = name)
           (DetectConflicts marshal sha256 localOrder sm localKeys remoteKeys) =
         (case buildKeyMap localKeys name of
            None \<Rightarrow> []
          | Some localKey \<Rightarrow>
              (case buildKeyMap remoteKeys name of
                 None \<Rightarrow> []
               | Some remoteKey \<Rightarrow>
                   if ComputeChecksum marshal sha256 localKey \<noteq> ComputeChecksum marshal sha256 remoteKey
                   then [\<lparr>KeyName = name, LocalKey = localKey, RemoteKey = remoteKey,
                          Strategy = strategy sm, ResolvedKey = Key_zero\<rparr>]
                   else [])) \<and>
         (buildKeyMap localKeys name = None \<longleftrightarrow> name \<notin> Name ` set localKeys) \<and>
         (buildKeyMap remoteKeys name = None \<longleftrightarrow> name \<notin> Name ` set remoteKeys) \<and>
         (\<forall>k. buildKeyMap localKeys name = Some k \<longrightarrow> k \<in> set localKeys \<and> Name k = name) \<and>
         (\<forall>k. buildKeyMap remoteKeys name = Some k \<longrightarrow> k \<in> set remoteKeys \<and> Name k = name)"
proof -
  let ?g = "detectConflict marshal sha256 sm (buildKeyMap localKeys) (buildKeyMap remoteKeys) []"
  have d: "distinct localOrder" and s: "set localOrder = dom (buildKeyMap localKeys)"
    using assms by (simp_all add: enumerates_def)
  have "filter (\<lambda>c. KeyName c = name)
           (DetectConflicts marshal sha256 localOrder sm localKeys remoteKeys) =
        (if name \<in> set localOrder then ?g name else [])"
    using filter_concat_map_distinct [OF d, of ?g KeyName name] detectConflict_KeyName
    by (simp add: DetectConflicts_def foldl_detectConflict)
  also have "\<dots> = ?g name"
    using s by (auto simp: detectConflict_def dom_def)
  finally show ?thesis
    using buildKeyMap_Some buildKeyMap_None
    by (auto simp: detectConflict_def Let_def split: option.splits)
qed

lemma exampleChecksums_differ:
  "ComputeChecksum exampleMarshal exampleDigest tieLocal \<noteq>
   ComputeChecksum exampleMarshal exampleDigest tieRemote"
  by code_simp

lemma example_names:
  "Name tieLocal = ''work''" "Name tieRemote = ''work''" "Name onlyLocal = ''laptop''"
  "Name onlyRemote = ''server''" "Name sameBoth = ''shared''"
  by (simp_all add: tieLocal_def tieRemote_def onlyLocal_def onlyRemote_def sameBoth_def)

lemma example_localMap:
  "buildKeyMap [tieLocal, onlyLocal, sameBoth] ''work'' = Some tieLocal"
  "buildKeyMap [tieLocal, onlyLocal, sameBoth] ''laptop'' = Some onlyLocal"
  "buildKeyMap [tieLocal, onlyLocal, sameBoth] ''shared'' = Some sameBoth"
  by (simp_all add: buildKeyMap_def example_names)

lemma example_remoteMap:
  "buildKeyMap [tieRemote, onlyRemote, sameBoth] ''work'' = Some tieRemote"
  "buildKeyMap [tieRemote, onlyRemote, sameBoth] ''laptop'' = None"
  "buildKeyMap [tieRemote, onlyRemote, sameBoth] ''shared'' = Some sameBoth"
  by (simp_all add: buildKeyMap_def example_names)

lemma example_enumerates:
  "enumerates [''shared'', ''work'', ''laptop''] (buildKeyMap [tieLocal, onlyLocal, sameBoth])"
  by (auto simp: enumerates_def dom_buildKeyMap example_names)

theorem C8_DetectConflicts_witness:
  "enumerates [''shared'', ''work'', ''laptop''] (buildKeyMap [tieLocal, onlyLocal, sameBoth]) \<and>
   filter (\<lambda>c. KeyName c = ''work'')
     (DetectConflicts exampleMarshal exampleDigest [''shared'', ''work'', ''laptop''] exampleManager
        [tieLocal, onlyLocal, sameBoth] [tieRemote, onlyRemote, sameBoth]) = [tieConflict] \<and>
   filter (\<lambda>c. KeyName c = ''laptop'')
     (DetectConflicts exampleMarshal exampleDigest [''shared'', ''work'', ''laptop''] exampleManager
        [tieLocal, onlyLocal, sameBoth] [tieRemote, onlyRemote, sameBoth]) = [] \<and>
   filter (\<lambda>c. KeyName c = ''shared'')
     (DetectConflicts exampleMarshal exampleDigest [''shared'', ''work'', ''laptop''] exampleManager
        [tieLocal, onlyLocal, sameBoth] [tieRemote, onlyRemote, sameBoth]) = []"
proof -
  note e = example_enumerates
  have s: "strategy exampleManager = StrategyNewerWins" by (simp add: exampleManager_def)
  have w: "filter (\<lambda>c. KeyName c = ''work'')
     (DetectConflicts exampleMarshal exampleDigest [''shared'', ''work'', ''laptop''] exampleManager
        [tieLocal, onlyLocal, sameBoth] [tieRemote, onlyRemote, sameBoth]) = [tieConflict]"
    using exampleChecksums_differ
      C8_DetectConflicts_per_name [OF e, of "''work''" exampleMarshal exampleDigest exampleManager
        "[tieRemote, onlyRemote, sameBoth]", THEN conjunct1]
    by (simp only: example_localMap example_remoteMap option.case simp_thms if_True s tieConflict_def)
  have l: "filter (\<lambda>c. KeyName c = ''laptop'')
     (DetectConflicts exampleMarshal exampleDigest [''shared'', ''work'', ''laptop''] exampleManager
        [tieLocal, onlyLocal, sameBoth] [tieRemote, onlyRemote, sameBoth]) = []"
    using
      C8_DetectConflicts_per_name [OF e, of "''laptop''" exampleMarshal exampleDigest exampleManager
        "[tieRemote, onlyRemote, sameBoth]", THEN conjunct1]
    by (simp only: example_localMap example_remoteMap option.case)
  have h: "filter (\<lambda>c. KeyName c = ''shared'')
     (DetectConflicts exampleMarshal exampleDigest [''shared'', ''work'', ''laptop''] exampleManager
        [tieLocal, onlyLocal, sameBoth] [tieRemote, onlyRemote, sameBoth]) = []"
    using
      C8_DetectConflicts_per_name [OF e, of "''shared''" exampleMarshal exampleDigest exampleManager
        "[tieRemote, onlyRemote, sameBoth]", THEN conjunct1]
    by (simp only: example_localMap example_remoteMap option.case simp_thms if_False)
  show ?thesis using e w l h by (intro conjI)
qed

section \<open>ResolveConflict: a strategy outside the enumeration\<close>

lemma ResolveConflict_unknown_strategy:
  assumes "Strategy conflict \<noteq> StrategyLocalWins" "Strategy conflict \<noteq> StrategyRemoteWins"
    "Strategy conflict \<noteq> StrategyNewerWins" "Strategy conflict \<noteq> StrategyManual"
  shows "ResolveConflict sm conflict = (ResolvedKey conflict, conflict)"
  using assms by (simp add: ResolveConflict_def)

lemma DetectConflicts_fresh:
  assumes "c \<in> set (DetectConflicts marshal sha256 order sm localKeys remoteKeys)"
  shows "ResolvedKey c = Key_zero \<and> Strategy c = strategy sm"
proof -
  obtain n where "c \<in> set (detectConflict marshal sha256 sm (buildKeyMap localKeys)
      (buildKeyMap remoteKeys) [] n)"
    using assms by (auto simp: DetectConflicts_def foldl_detectConflict)
  then show ?thesis
    by (auto simp: detectConflict_def Let_def split: option.splits if_splits)
qed

text \<open>
  Claim C10.  When \<open>Strategy\<close> is none of \<open>local\<close>, \<open>remote\<close>, \<open>newer\<close>, \<open>manual\<close>, no case of
  the switch runs: the conflict is left as it was and its \<open>ResolvedKey\<close> is returned, with no
  error.  For a conflict whose \<open>ResolvedKey\<close> is at its zero value, as in every conflict
  that \<open>DetectConflicts\<close> returns, the result is the zero-value key and \<open>ResolvedKey\<close> stays
  at its zero value; the result is neither the local nor the remote record, unless that
  record is itself the zero-value key.
\<close>

theorem C10_unknown_strategy_returns_zero_key:
  assumes "Strategy conflict \<notin> {StrategyLocalWins, StrategyRemoteWins, StrategyNewerWins, StrategyManual}"
  shows "ResolveConflict sm conflict = (ResolvedKey conflict, conflict) \<and>
         (ResolvedKey conflict = Key_zero \<longrightarrow>
            ResolveConflict sm conflict = (Key_zero, conflict) \<and>
            (LocalKey conflict \<noteq> Key_zero \<longrightarrow> fst (ResolveConflict sm conflict) \<noteq> LocalKey conflict) \<and>
            (RemoteKey conflict \<noteq> Key_zero \<longrightarrow> fst (ResolveConflict sm conflict) \<noteq> RemoteKey conflict)) \<and>
         (conflict \<in> set (DetectConflicts marshal sha256 order sm' localKeys remoteKeys) \<longrightarrow>
            ResolveConflict sm conflict = (Key_zero, conflict))"
proof -
  have 1: "ResolveConflict sm conflict = (ResolvedKey conflict, conflict)"
    using assms ResolveConflict_unknown_strategy [of conflict sm] by simp
  have 2: "ResolvedKey conflict = Key_zero"
    if "conflict \<in> set (DetectConflicts marshal sha256 order sm' localKeys remoteKeys)"
    using DetectConflicts_fresh [OF that] by simp
  show ?thesis using 1 2 by auto
qed

theorem C10_unknown_strategy_witness:
  "Strategy unknownStrategyConflict \<notin> {StrategyLocalWins, StrategyRemoteWins, StrategyNewerWins, StrategyManual} \<and>
   ResolvedKey unknownStrategyConflict = Key_zero \<and>
   LocalKey unknownStrategyConflict \<noteq> Key_zero \<and>
   RemoteKey unknownStrategyConflict \<noteq> Key_zero \<and>
   ResolveConflict exampleManager unknownStrategyConflict = (Key_zero, unknownStrategyConflict) \<and>
   fst (ResolveConflict exampleManager unknownStrategyConflict) \<noteq> LocalKey unknownStrategyConflict \<and>
   fst (ResolveConflict exampleManager unknownStrategyConflict) \<noteq> RemoteKey unknownStrategyConflict \<and>
   unknownStrategyConflict \<in> set
     (DetectConflicts exampleMarshal exampleDigest [''shared'', ''work'', ''laptop'']
        (exampleManager\<lparr>strategy := ''merge''\<rparr>)
        [tieLocal, onlyLocal, sameBoth] [tieRemote, onlyRemote, sameBoth])"
proof -
  have a: "Strategy unknownStrategyConflict \<notin> {StrategyLocalWins, StrategyRemoteWins, StrategyNewerWins, StrategyManual}"
    by (simp add: unknownStrategyConflict_def strategy_defs)
  have b: "ResolvedKey unknownStrategyConflict = Key_zero"
    by (simp add: unknownStrategyConflict_def tieConflict_def)
  have c: "LocalKey unknownStrategyConflict \<noteq> Key_zero" "RemoteKey unknownStrategyConflict \<noteq> Key_zero"
    by (simp_all add: unknownStrategyConflict_def tieConflict_def tieLocal_def tieRemote_def Key_zero_def)
  have d: "unknownStrategyConflict \<in> set
     (DetectConflicts exampleMarshal exampleDigest [''shared'', ''work'', ''laptop'']
        (exampleManager\<lparr>strategy := ''merge''\<rparr>)
        [tieLocal, onlyLocal, sameBoth] [tieRemote, onlyRemote, sameBoth])"
    using exampleChecksums_differ
    by (simp add: DetectConflicts_def foldl_detectConflict detectConflict_def Let_def
        example_localMap example_remoteMap unknownStrategyConflict_def tieConflict_def)
  note th = C10_unknown_strategy_returns_zero_key [OF a, of exampleManager]
  have e: "ResolveConflict exampleManager unknownStrategyConflict = (Key_zero, unknownStrategyConflict)"
    using th b by blast
  have f: "fst (ResolveConflict exampleManager unknownStrategyConflict) \<noteq> LocalKey unknownStrategyConflict"
      "fst (ResolveConflict exampleManager unknownStrategyConflict) \<noteq> RemoteKey unknownStrategyConflict"
    using th b c by blast+
  show ?thesis using a b c d e f by (intro conjI)
qed

section \<open>DetectChanges\<close>

text \<open>After \<open>UpdateLocalState keys\<close> the names of the local checksum map are the names of \<open>keys\<close>.\<close>

lemma UpdateLocalState_names:
  "dom (KeyChecksums (localState (UpdateLocalState marshal sha256 now sm keys))) = Name ` set keys"
proof -
  have "dom (foldl (\<lambda>m key. m(Name key \<mapsto> ComputeChecksum marshal sha256 key)) m0 keys) =
        dom m0 \<union> Name ` set keys" for m0
    by (induction keys arbitrary: m0) auto
  then show ?thesis by (simp add: UpdateLocalState_def)
qed


lemma detectLocal_append:
  "detectLocal now sm lm cs n = cs @ detectLocal now sm lm [] n"
  by (simp add: detectLocal_def split: option.splits)

lemma detectDeleted_append:
  "detectDeleted now sm cs n = cs @ detectDeleted now sm [] n"
  by (simp add: detectDeleted_def split: option.splits)

lemma foldl_detectLocal:
  "foldl (detectLocal now sm lm) cs order = cs @ concat (map (detectLocal now sm lm []) order)"
proof (induction order arbitrary: cs)
  case Nil
  then show ?case by simp
next
  case (Cons n order)
  show ?case
    using Cons [of "detectLocal now sm lm cs n"] detectLocal_append [of now sm lm cs n] by simp
qed

lemma foldl_detectDeleted:
  "foldl (detectDeleted now sm) cs order = cs @ concat (map (detectDeleted now sm []) order)"
proof (induction order arbitrary: cs)
  case Nil
  then show ?case by simp
next
  case (Cons n order)
  show ?case
    using Cons [of "detectDeleted now sm cs n"] detectDeleted_append [of now sm cs n] by simp
qed

lemma DetectChanges_eq:
  "DetectChanges now lo ro sm localKeys =
     concat (map (detectLocal now sm (buildKeyMap localKeys) []) lo) @
     concat (map (detectDeleted now sm []) ro)"
  by (simp add: DetectChanges_def Let_def foldl_detectLocal foldl_detectDeleted)

lemma changeType_distinct:
  "ChangeTypeCreate \<noteq> ChangeTypeDelete" "ChangeTypeUpdate \<noteq> ChangeTypeDelete"
  "ChangeTypeCreate \<noteq> ChangeTypeUpdate"
  by (simp_all add: ChangeTypeCreate_def ChangeTypeUpdate_def ChangeTypeDelete_def)

lemma detectLocal_type:
  "c \<in> set (detectLocal now sm lm [] n) \<Longrightarrow> kc_Type c \<noteq> ChangeTypeDelete"
  by (auto simp: detectLocal_def changeType_distinct split: option.splits if_splits)

lemma detectDeleted_type:
  "c \<in> set (detectDeleted now sm [] n) \<Longrightarrow> kc_Type c = ChangeTypeDelete"
  by (auto simp: detectDeleted_def split: option.splits)

lemma detectDeleted_name:
  "c \<in> set (detectDeleted now sm [] n) \<Longrightarrow> Name (kc_Key c) = n"
  by (auto simp: detectDeleted_def split: option.splits)

lemma lookupKey_buildKeyMap:
  assumes "n \<in> Name ` set keys"
  shows "lookupKey (buildKeyMap keys) n \<in> set keys \<and> Name (lookupKey (buildKeyMap keys) n) = n"
proof -
  obtain k where "buildKeyMap keys n = Some k"
    using assms buildKeyMap_None [of keys n] by auto
  then show ?thesis using buildKeyMap_Some [of keys n k] by (simp add: lookupKey_def)
qed

lemma detectLocal_name:
  assumes "dom (KeyChecksums (localState sm)) \<subseteq> Name ` set keys"
    and "c \<in> set (detectLocal now sm (buildKeyMap keys) [] n)"
  shows "Name (kc_Key c) = n"
proof (cases "KeyChecksums (localState sm) n")
  case None
  then show ?thesis using assms(2) by (simp add: detectLocal_def)
next
  case (Some lc)
  then have "n \<in> Name ` set keys" using assms(1) by blast
  then have "Name (lookupKey (buildKeyMap keys) n) = n" using lookupKey_buildKeyMap by blast
  then show ?thesis using assms(2) Some
    by (auto simp: detectLocal_def split: option.splits if_splits)
qed

lemma DetectChanges_per_name:
  assumes lo: "enumerates lo (KeyChecksums (localState sm))"
    and ro: "enumerates ro (KeyChecksums (remoteState sm))"
    and cover: "dom (KeyChecksums (localState sm)) \<subseteq> Name ` set localKeys"
  shows "filter (\<lambda>c. Name (kc_Key c) = name) (DetectChanges now lo ro sm localKeys) =
         detectLocal now sm (buildKeyMap localKeys) [] name @ detectDeleted now sm [] name"
proof -
  let ?gL = "detectLocal now sm (buildKeyMap localKeys) []"
  let ?gD = "detectDeleted now sm []"
  have dl: "distinct lo" and dr: "distinct ro"
    using lo ro by (simp_all add: enumerates_def)
  have sl: "set lo = dom (KeyChecksums (localState sm))"
    and sr: "set ro = dom (KeyChecksums (remoteState sm))"
    using lo ro by (simp_all add: enumerates_def)
  have a: "filter (\<lambda>c. Name (kc_Key c) = name) (concat (map ?gL lo)) =
           (if name \<in> set lo then ?gL name else [])"
    using filter_concat_map_distinct [OF dl, of ?gL "\<lambda>c. Name (kc_Key c)" name]
      detectLocal_name [OF cover] by blast
  have b: "filter (\<lambda>c. Name (kc_Key c) = name) (concat (map ?gD ro)) =
           (if name \<in> set ro then ?gD name else [])"
    using filter_concat_map_distinct [OF dr, of ?gD "\<lambda>c. Name (kc_Key c)" name]
      detectDeleted_name by blast
  have a': "(if name \<in> set lo then ?gL name else []) = ?gL name"
    using sl by (auto simp: detectLocal_def dom_def)
  have b': "(if name \<in> set ro then ?gD name else []) = ?gD name"
    using sr by (auto simp: detectDeleted_def dom_def)
  show ?thesis
    by (simp only: DetectChanges_eq filter_append a b a' b')
qed

lemma DetectChanges_deletes_last:
  "DetectChanges now lo ro sm localKeys =
     filter (\<lambda>c. kc_Type c \<noteq> ChangeTypeDelete) (DetectChanges now lo ro sm localKeys) @
     filter (\<lambda>c. kc_Type c = ChangeTypeDelete) (DetectChanges now lo ro sm localKeys)"
proof -
  let ?A = "concat (map (detectLocal now sm (buildKeyMap localKeys) []) lo)"
  let ?B = "concat (map (detectDeleted now sm []) ro)"
  have A: "\<forall>c \<in> set ?A. kc_Type c \<noteq> ChangeTypeDelete"
    using detectLocal_type by auto
  have B: "\<forall>c \<in> set ?B. kc_Type c = ChangeTypeDelete"
    using detectDeleted_type by auto
  have 1: "filter (\<lambda>c. kc_Type c \<noteq> ChangeTypeDelete) ?A = ?A"
    using A by (simp add: filter_id_conv)
  have 2: "filter (\<lambda>c. kc_Type c \<noteq> ChangeTypeDelete) ?B = []"
    using B by (simp add: filter_empty_conv)
  have 3: "filter (\<lambda>c. kc_Type c = ChangeTypeDelete) ?A = []"
    using A by (simp add: filter_empty_conv)
  have 4: "filter (\<lambda>c. kc_Type c = ChangeTypeDelete) ?B = ?B"
    using B by (simp add: filter_id_conv)
  show ?thesis
    by (simp only: DetectChanges_eq filter_append 1 2 3 4 append_Nil append_Nil2)
qed

text \<open>
  Claim C2.  Let the two loops visit the checksum maps in any order, and let every name of the
  local map have a record in \<open>localKeys\<close>.  Then the changes that \<open>DetectChanges\<close> returns for
  a name are: one \<open>create\<close> with the local record when only the local map has the name; one
  \<open>update\<close> with the local record when both have it with different checksums; none when
  the checksums are equal; one \<open>delete\<close> carrying only the name when only the remote map has
  it.  The result is its changes other than \<open>delete\<close> followed by its \<open>delete\<close> changes, and
  it is empty when both maps are empty.
\<close>

theorem C2_DetectChanges_per_name:
  assumes lo: "enumerates localOrder (KeyChecksums (localState sm))"
    and ro: "enumerates remoteOrder (KeyChecksums (remoteState sm))"
    and cover: "dom (KeyChecksums (localState sm)) \<subseteq> Name ` set localKeys"
  shows "filter (\<lambda>c. Name (kc_Key c) = name) (DetectChanges now localOrder remoteOrder sm localKeys) =
         (case KeyChecksums (localState sm) name of
            Some localChecksum \<Rightarrow>
              (case KeyChecksums (remoteState sm) name of
                 None \<Rightarrow>
                   [\<lparr>kc_Type = ChangeTypeCreate, kc_Key = lookupKey (buildKeyMap localKeys) name,
                      kc_Timestamp = now, kc_DeviceID = deviceID sm, kc_Checksum = localChecksum\<rparr>]
               | Some remoteChecksum \<Rightarrow>
                   if localChecksum \<noteq> remoteChecksum then
                     [\<lparr>kc_Type = ChangeTypeUpdate, kc_Key = lookupKey (buildKeyMap localKeys) name,
                        kc_Timestamp = now, kc_DeviceID = deviceID sm, kc_Checksum = localChecksum\<rparr>]
                   else [])
          | None \<Rightarrow>
              (case KeyChecksums (remoteState sm) name of
                 None \<Rightarrow> []
               | Some remoteChecksum \<Rightarrow>
                   [\<lparr>kc_Type = ChangeTypeDelete, kc_Key = Key_zero\<lparr>Name := name\<rparr>,
                      kc_Timestamp = now, kc_DeviceID = deviceID sm, kc_Checksum = ''''\<rparr>])) \<and>
         (name \<in> dom (KeyChecksums (localState sm)) \<longrightarrow>
            lookupKey (buildKeyMap localKeys) name \<in> set localKeys \<and>
            Name (lookupKey (buildKeyMap localKeys) name) = name) \<and>
         DetectChanges now localOrder remoteOrder sm localKeys =
           filter (\<lambda>c. kc_Type c \<noteq> ChangeTypeDelete) (DetectChanges now localOrder remoteOrder sm localKeys) @
           filter (\<lambda>c. kc_Type c = ChangeTypeDelete) (DetectChanges now localOrder remoteOrder sm localKeys) \<and>
         (KeyChecksums (localState sm) = Map.empty \<and> KeyChecksums (remoteState sm) = Map.empty \<longrightarrow>
            DetectChanges now localOrder remoteOrder sm localKeys = [])"
proof (intro conjI impI)
  show "filter (\<lambda>c. Name (kc_Key c) = name) (DetectChanges now localOrder remoteOrder sm localKeys) =
         (case KeyChecksums (localState sm) name of
            Some localChecksum \<Rightarrow>
              (case KeyChecksums (remoteState sm) name of
                 None \<Rightarrow>
                   [\<lparr>kc_Type = ChangeTypeCreate, kc_Key = lookupKey (buildKeyMap localKeys) name,
                      kc_Timestamp = now, kc_DeviceID = deviceID sm, kc_Checksum = localChecksum\<rparr>]
               | Some remoteChecksum \<Rightarrow>
                   if localChecksum \<noteq> remoteChecksum then
                     [\<lparr>kc_Type = ChangeTypeUpdate, kc_Key = lookupKey (buildKeyMap localKeys) name,
                        kc_Timestamp = now, kc_DeviceID = deviceID sm, kc_Checksum = localChecksum\<rparr>]
                   else [])
          | None \<Rightarrow>
              (case KeyChecksums (remoteState sm) name of
                 None \<Rightarrow> []
               | Some remoteChecksum \<Rightarrow>
                   [\<lparr>kc_Type = ChangeTypeDelete, kc_Key = Key_zero\<lparr>Name := name\<rparr>,
                      kc_Timestamp = now, kc_DeviceID = deviceID sm, kc_Checksum = ''''\<rparr>]))"
    unfolding DetectChanges_per_name [OF lo ro cover]
    by (simp add: detectLocal_def detectDeleted_def split: option.splits)
next
  assume "name \<in> dom (KeyChecksums (localState sm))"
  then have "name \<in> Name ` set localKeys" using cover by blast
  then show "lookupKey (buildKeyMap localKeys) name \<in> set localKeys"
    and "Name (lookupKey (buildKeyMap localKeys) name) = name"
    using lookupKey_buildKeyMap by blast+
next
  show "DetectChanges now localOrder remoteOrder sm localKeys =
           filter (\<lambda>c. kc_Type c \<noteq> ChangeTypeDelete) (DetectChanges now localOrder remoteOrder sm localKeys) @
           filter (\<lambda>c. kc_Type c = ChangeTypeDelete) (DetectChanges now localOrder remoteOrder sm localKeys)"
    by (rule DetectChanges_deletes_last)
next
  assume "KeyChecksums (localState sm) = Map.empty \<and> KeyChecksums (remoteState sm) = Map.empty"
  then have "localOrder = []" "remoteOrder = []"
    using lo ro by (simp_all add: enumerates_def)
  then show "DetectChanges now localOrder remoteOrder sm localKeys = []"
    by (simp add: DetectChanges_eq)
qed

lemma pendingManager_maps:
  "KeyChecksums (localState pendingManager) =
     [''work'' \<mapsto> ''abc'', ''laptop'' \<mapsto> ''l1'', ''shared'' \<mapsto> ''s1'']"
  "KeyChecksums (remoteState pendingManager) =
     [''work'' \<mapsto> ''xyz'', ''server'' \<mapsto> ''r1'', ''shared'' \<mapsto> ''s1'']"
  "deviceID pendingManager = ''laptop''"
  by (simp_all add: pendingManager_def exampleManager_def emptyState_def)

lemma pendingManager_hyps:
  "enumerates [''shared'', ''work'', ''laptop''] (KeyChecksums (localState pendingManager))"
  "enumerates [''server'', ''work'', ''shared''] (KeyChecksums (remoteState pendingManager))"
  "dom (KeyChecksums (localState pendingManager)) \<subseteq> Name ` set [tieLocal, onlyLocal, sameBoth]"
  by (auto simp: enumerates_def pendingManager_maps example_names)

theorem C2_DetectChanges_witness:
  "enumerates [''shared'', ''work'', ''laptop''] (KeyChecksums (localState pendingManager)) \<and>
   enumerates [''server'', ''work'', ''shared''] (KeyChecksums (remoteState pendingManager)) \<and>
   dom (KeyChecksums (localState pendingManager)) \<subseteq> Name ` set [tieLocal, onlyLocal, sameBoth] \<and>
   filter (\<lambda>c. Name (kc_Key c) = ''laptop'')
     (DetectChanges noon [''shared'', ''work'', ''laptop''] [''server'', ''work'', ''shared'']
        pendingManager [tieLocal, onlyLocal, sameBoth]) =
     [\<lparr>kc_Type = ChangeTypeCreate, kc_Key = onlyLocal, kc_Timestamp = noon,
        kc_DeviceID = ''laptop'', kc_Checksum = ''l1''\<rparr>] \<and>
   filter (\<lambda>c. Name (kc_Key c) = ''work'')
     (DetectChanges noon [''shared'', ''work'', ''laptop''] [''server'', ''work'', ''shared'']
        pendingManager [tieLocal, onlyLocal, sameBoth]) =
     [\<lparr>kc_Type = ChangeTypeUpdate, kc_Key = tieLocal, kc_Timestamp = noon,
        kc_DeviceID = ''laptop'', kc_Checksum = ''abc''\<rparr>] \<and>
   filter (\<lambda>c. Name (kc_Key c) = ''shared'')
     (DetectChanges noon [''shared'', ''work'', ''laptop''] [''server'', ''work'', ''shared'']
        pendingManager [tieLocal, onlyLocal, sameBoth]) = [] \<and>
   filter (\<lambda>c. Name (kc_Key c) = ''server'')
     (DetectChanges noon [''shared'', ''work'', ''laptop''] [''server'', ''work'', ''shared'']
        pendingManager [tieLocal, onlyLocal, sameBoth]) =
     [\<lparr>kc_Type = ChangeTypeDelete, kc_Key = Key_zero\<lparr>Name := ''server''\<rparr>, kc_Timestamp = noon,
        kc_DeviceID = ''laptop'', kc_Checksum = ''''\<rparr>] \<and>
   DetectChanges noon [''shared'', ''work'', ''laptop''] [''server'', ''work'', ''shared'']
        pendingManager [tieLocal, onlyLocal, sameBoth] =
     [\<lparr>kc_Type = ChangeTypeUpdate, kc_Key = tieLocal, kc_Timestamp = noon,
        kc_DeviceID = ''laptop'', kc_Checksum = ''abc''\<rparr>,
      \<lparr>kc_Type = ChangeTypeCreate, kc_Key = onlyLocal, kc_Timestamp = noon,
        kc_DeviceID = ''laptop'', kc_Checksum = ''l1''\<rparr>,
      \<lparr>kc_Type = ChangeTypeDelete, kc_Key = Key_zero\<lparr>Name := ''server''\<rparr>, kc_Timestamp = noon,
        kc_DeviceID = ''laptop'', kc_Checksum = ''''\<rparr>]"
proof -
  note h = pendingManager_hyps
  note th = C2_DetectChanges_per_name [OF h, THEN conjunct1]
  have lk: "lookupKey (buildKeyMap [tieLocal, onlyLocal, sameBoth]) ''laptop'' = onlyLocal"
      "lookupKey (buildKeyMap [tieLocal, onlyLocal, sameBoth]) ''work'' = tieLocal"
    by (simp_all add: lookupKey_def example_localMap)
  have 1: "filter (\<lambda>c. Name (kc_Key c) = ''laptop'')
     (DetectChanges noon [''shared'', ''work'', ''laptop''] [''server'', ''work'', ''shared'']
        pendingManager [tieLocal, onlyLocal, sameBoth]) =
     [\<lparr>kc_Type = ChangeTypeCreate, kc_Key = onlyLocal, kc_Timestamp = noon,
        kc_DeviceID = ''laptop'', kc_Checksum = ''l1''\<rparr>]"
    using th [of "''laptop''" noon] by (simp add: pendingManager_maps lk)
  have 2: "filter (\<lambda>c. Name (kc_Key c) = ''work'')
     (DetectChanges noon [''shared'', ''work'', ''laptop''] [''server'', ''work'', ''shared'']
        pendingManager [tieLocal, onlyLocal, sameBoth]) =
     [\<lparr>kc_Type = ChangeTypeUpdate, kc_Key = tieLocal, kc_Timestamp = noon,
        kc_DeviceID = ''laptop'', kc_Checksum = ''abc''\<rparr>]"
    using th [of "''work''" noon] by (simp add: pendingManager_maps lk)
  have 3: "filter (\<lambda>c. Name (kc_Key c) = ''shared'')
     (DetectChanges noon [''shared'', ''work'', ''laptop''] [''server'', ''work'', ''shared'']
        pendingManager [tieLocal, onlyLocal, sameBoth]) = []"
    using th [of "''shared''" noon] by (simp add: pendingManager_maps)
  have 4: "filter (\<lambda>c. Name (kc_Key c) = ''server'')
     (DetectChanges noon [''shared'', ''work'', ''laptop''] [''server'', ''work'', ''shared'']
        pendingManager [tieLocal, onlyLocal, sameBoth]) =
     [\<lparr>kc_Type = ChangeTypeDelete, kc_Key = Key_zero\<lparr>Name := ''server''\<rparr>, kc_Timestamp = noon,
        kc_DeviceID = ''laptop'', kc_Checksum = ''''\<rparr>]"
    using th [of "''server''" noon] by (simp add: pendingManager_maps)
  have 5: "DetectChanges noon [''shared'', ''work'', ''laptop''] [''server'', ''work'', ''shared'']
        pendingManager [tieLocal, onlyLocal, sameBoth] =
     [\<lparr>kc_Type = ChangeTypeUpdate, kc_Key = tieLocal, kc_Timestamp = noon,
        kc_DeviceID = ''laptop'', kc_Checksum = ''abc''\<rparr>,
      \<lparr>kc_Type = ChangeTypeCreate, kc_Key = onlyLocal, kc_Timestamp = noon,
        kc_DeviceID = ''laptop'', kc_Checksum = ''l1''\<rparr>,
      \<lparr>kc_Type = ChangeTypeDelete, kc_Key = Key_zero\<lparr>Name := ''server''\<rparr>, kc_Timestamp = noon,
        kc_DeviceID = ''laptop'', kc_Checksum = ''''\<rparr>]"
    by (simp add: DetectChanges_eq detectLocal_def detectDeleted_def pendingManager_maps lk)
  show ?thesis using h 1 2 3 4 5 by (intro conjI)
qed

section \<open>ApplyChanges\<close>

lemma touched_Nil: "touched [] = {}"
  by (simp add: touched_def)

lemma touched_Cons:
  "touched (c # cs) =
     (if kc_Type c = ChangeTypeCreate \<or> kc_Type c = ChangeTypeUpdate \<or> kc_Type c = ChangeTypeDelete
      then insert (Name (kc_Key c)) (touched cs) else touched cs)"
  by (auto simp: touched_def)

lemma applyChange_other:
  "n \<notin> touched [c] \<Longrightarrow> applyChange m c n = m n"
  by (auto simp: applyChange_def touched_Cons touched_Nil split: if_splits)

lemma applyChange_same:
  "n \<in> touched [c] \<Longrightarrow> applyChange m c n = applyChange m' c n"
  by (auto simp: applyChange_def touched_Cons touched_Nil split: if_splits)

lemma touched_Cons_un: "touched (c # cs) = touched [c] \<union> touched cs"
  by (auto simp: touched_Cons touched_Nil)

lemma foldl_applyChange_untouched:
  "n \<notin> touched cs \<Longrightarrow> foldl applyChange m cs n = m n"
proof (induction cs arbitrary: m)
  case Nil
  then show ?case by simp
next
  case (Cons c cs)
  then have "n \<notin> touched [c]" "n \<notin> touched cs" by (simp_all add: touched_Cons_un [of c cs])
  then show ?case using Cons.IH [of "applyChange m c"] by (simp add: applyChange_other)
qed

lemma foldl_applyChange_cong:
  "(\<And>n. n \<notin> touched cs \<Longrightarrow> m n = m' n) \<Longrightarrow> foldl applyChange m cs = foldl applyChange m' cs"
proof (induction cs arbitrary: m m')
  case Nil
  then show ?case by (auto simp: touched_Nil)
next
  case (Cons c cs)
  have "applyChange m c n = applyChange m' c n" if "n \<notin> touched cs" for n
  proof (cases "n \<in> touched [c]")
    case True
    then show ?thesis by (rule applyChange_same)
  next
    case False
    then have "n \<notin> touched (c # cs)" using that by (simp add: touched_Cons_un [of c cs])
    then have "m n = m' n" by (rule Cons.prems)
    then show ?thesis using False by (simp add: applyChange_other)
  qed
  then have "foldl applyChange (applyChange m c) cs = foldl applyChange (applyChange m' c) cs"
    by (rule Cons.IH)
  then show ?case by simp
qed

lemma foldl_applyChange_idem:
  "foldl applyChange (foldl applyChange m cs) cs = foldl applyChange m cs"
  by (rule foldl_applyChange_cong) (simp add: foldl_applyChange_untouched)

lemma applyChange_named:
  assumes "\<And>n k. m n = Some k \<Longrightarrow> Name k = n" and "applyChange m c n = Some k"
  shows "Name k = n"
  using assms by (auto simp: applyChange_def split: if_splits)

lemma foldl_applyChange_named:
  "(\<And>n k. m n = Some k \<Longrightarrow> Name k = n) \<Longrightarrow> foldl applyChange m cs n = Some k \<Longrightarrow> Name k = n"
proof (induction cs arbitrary: m)
  case Nil
  then show ?case by simp
next
  case (Cons c cs)
  show ?case
  proof (rule Cons.IH [of "applyChange m c"])
    show "\<And>n k. applyChange m c n = Some k \<Longrightarrow> Name k = n"
      using applyChange_named [of m c] Cons.prems(1) by blast
    show "foldl applyChange (applyChange m c) cs n = Some k" using Cons.prems(2) by simp
  qed
qed

lemma ApplyChanges_keyMap_named:
  "ApplyChanges_keyMap localKeys changes n = Some k \<Longrightarrow> Name k = n"
  unfolding ApplyChanges_keyMap_def
  using foldl_applyChange_named [of "buildKeyMap localKeys" changes n k] buildKeyMap_Some by blast

lemma foldl_collect:
  "foldl (\<lambda>result name. case m name of None \<Rightarrow> result | Some key \<Rightarrow> result @ [key]) acc order =
   acc @ concat (map (\<lambda>n. case m n of None \<Rightarrow> [] | Some key \<Rightarrow> [key]) order)"
  by (induction order arbitrary: acc) (auto split: option.splits)

lemma ApplyChanges_eq:
  "ApplyChanges order localKeys changes =
     concat (map (\<lambda>n. case ApplyChanges_keyMap localKeys changes n of None \<Rightarrow> [] | Some key \<Rightarrow> [key])
       order)"
  by (simp add: ApplyChanges_def Let_def foldl_collect)

lemma set_ApplyChanges:
  assumes "enumerates order (ApplyChanges_keyMap localKeys changes)"
  shows "set (ApplyChanges order localKeys changes) = ran (ApplyChanges_keyMap localKeys changes)"
proof -
  have "set order = dom (ApplyChanges_keyMap localKeys changes)"
    using assms by (simp add: enumerates_def)
  then show ?thesis
    unfolding ApplyChanges_eq ran_def
    by (auto split: option.splits)
qed

lemma names_ApplyChanges:
  assumes "enumerates order (ApplyChanges_keyMap localKeys changes)"
  shows "map Name (ApplyChanges order localKeys changes) = order"
proof -
  let ?m = "ApplyChanges_keyMap localKeys changes"
  have "set order \<subseteq> dom ?m" using assms by (simp add: enumerates_def)
  then have "map Name (concat (map (\<lambda>n. case ?m n of None \<Rightarrow> [] | Some key \<Rightarrow> [key]) order)) = order"
  proof (induction order)
    case Nil
    then show ?case by simp
  next
    case (Cons n order)
    then obtain k where k: "?m n = Some k" by auto
    then have "Name k = n" by (rule ApplyChanges_keyMap_named)
    then show ?case using Cons k by simp
  qed
  then show ?thesis by (simp add: ApplyChanges_eq)
qed

lemma distinct_names_ApplyChanges:
  "enumerates order (ApplyChanges_keyMap localKeys changes) \<Longrightarrow>
   distinct (map Name (ApplyChanges order localKeys changes))"
  by (simp add: names_ApplyChanges enumerates_def)

lemma buildKeyMap_distinct:
  assumes "distinct (map Name keys)" "k \<in> set keys"
  shows "buildKeyMap keys (Name k) = Some k"
proof -
  have "Name k \<in> Name ` set keys" using assms(2) by blast
  then obtain k' where k': "buildKeyMap keys (Name k) = Some k'"
    using buildKeyMap_None [of keys "Name k"] by auto
  then have "k' \<in> set keys" "Name k' = Name k" using buildKeyMap_Some by blast+
  moreover have "inj_on Name (set keys)" using assms(1) by (simp add: distinct_map)
  ultimately have "k' = k" using assms(2) by (auto dest: inj_onD)
  then show ?thesis using k' by simp
qed

lemma buildKeyMap_ApplyChanges:
  assumes "enumerates order (ApplyChanges_keyMap localKeys changes)"
  shows "buildKeyMap (ApplyChanges order localKeys changes) = ApplyChanges_keyMap localKeys changes"
proof
  fix n
  let ?m = "ApplyChanges_keyMap localKeys changes"
  let ?r = "ApplyChanges order localKeys changes"
  show "buildKeyMap ?r n = ?m n"
  proof (cases "?m n")
    case None
    have "n \<notin> Name ` set ?r"
    proof
      assume "n \<in> Name ` set ?r"
      then have "n \<in> set (map Name ?r)" by simp
      then have "n \<in> set order" by (simp only: names_ApplyChanges [OF assms])
      then have "n \<in> dom ?m" using assms by (simp add: enumerates_def)
      then show False using None by auto
    qed
    then show ?thesis using None buildKeyMap_None by simp
  next
    case (Some k)
    then have "k \<in> set ?r" using set_ApplyChanges [OF assms] by (auto simp: ran_def)
    moreover have "Name k = n" using Some by (rule ApplyChanges_keyMap_named)
    ultimately show ?thesis
      using buildKeyMap_distinct [OF distinct_names_ApplyChanges [OF assms], of k] Some by simp
  qed
qed

lemma ApplyChanges_keyMap_idem:
  assumes "enumerates order (ApplyChanges_keyMap localKeys changes)"
  shows "ApplyChanges_keyMap (ApplyChanges order localKeys changes) changes =
         ApplyChanges_keyMap localKeys changes"
proof -
  have "ApplyChanges_keyMap (ApplyChanges order localKeys changes) changes =
        foldl applyChange (ApplyChanges_keyMap localKeys changes) changes"
    by (simp add: ApplyChanges_keyMap_def [of "ApplyChanges order localKeys changes"]
        buildKeyMap_ApplyChanges [OF assms])
  also have "\<dots> = ApplyChanges_keyMap localKeys changes"
    by (simp add: ApplyChanges_keyMap_def foldl_applyChange_idem)
  finally show ?thesis .
qed

text \<open>
  Claim C3.  Apply a change list to a record list, and apply the same change list to the
  result, each time with any order of visiting \<open>keyMap\<close>.  The second result holds the same
  records as the first: the same name-keyed map and the same multiset of records, each name
  once.  A \<open>delete\<close> of a name that the working set does not hold leaves the working set as
  it is; \<open>ApplyChanges\<close> returns no error at all.
\<close>

theorem C3_ApplyChanges_idempotent:
  assumes o1: "enumerates order1 (ApplyChanges_keyMap localKeys changes)"
    and o2: "enumerates order2 (ApplyChanges_keyMap (ApplyChanges order1 localKeys changes) changes)"
  shows "buildKeyMap (ApplyChanges order2 (ApplyChanges order1 localKeys changes) changes) =
           buildKeyMap (ApplyChanges order1 localKeys changes) \<and>
         mset (ApplyChanges order2 (ApplyChanges order1 localKeys changes) changes) =
           mset (ApplyChanges order1 localKeys changes) \<and>
         distinct (map Name (ApplyChanges order1 localKeys changes)) \<and>
         (kc_Type change = ChangeTypeDelete \<and> Name (kc_Key change) \<notin> dom keyMap \<longrightarrow>
            applyChange keyMap change = keyMap)"
proof -
  let ?r1 = "ApplyChanges order1 localKeys changes"
  let ?r2 = "ApplyChanges order2 ?r1 changes"
  have m: "ApplyChanges_keyMap ?r1 changes = ApplyChanges_keyMap localKeys changes"
    by (rule ApplyChanges_keyMap_idem [OF o1])
  have 1: "buildKeyMap ?r2 = buildKeyMap ?r1"
    using buildKeyMap_ApplyChanges [OF o2] buildKeyMap_ApplyChanges [OF o1] m by simp
  have d1: "distinct (map Name ?r1)" by (rule distinct_names_ApplyChanges [OF o1])
  have d2: "distinct (map Name ?r2)" by (rule distinct_names_ApplyChanges [OF o2])
  have "set ?r2 = set ?r1"
    using set_ApplyChanges [OF o2] set_ApplyChanges [OF o1] m by simp
  moreover have "distinct ?r1" "distinct ?r2" using d1 d2 by (simp_all add: distinct_map)
  ultimately have 2: "mset ?r2 = mset ?r1" by (simp add: set_eq_iff_mset_eq_distinct)
  have 3: "applyChange keyMap change = keyMap"
    if "kc_Type change = ChangeTypeDelete \<and> Name (kc_Key change) \<notin> dom keyMap"
    using that changeType_distinct(1,2) [symmetric]
    by (simp add: applyChange_def fun_upd_idem_iff domIff)
  show ?thesis using 1 2 d1 3 by blast
qed


lemmas changeType_defs = ChangeTypeCreate_def ChangeTypeUpdate_def ChangeTypeDelete_def

lemma example_keyMap:
  "ApplyChanges_keyMap [tieLocal, sameBoth] exampleChanges =
     [''work'' \<mapsto> tieRemote, ''laptop'' \<mapsto> onlyLocal]"
  by (rule ext)
    (simp add: ApplyChanges_keyMap_def buildKeyMap_def exampleChanges_def changeOf_def applyChange_def
      changeType_defs example_names)

lemma example_keyMap2:
  "ApplyChanges_keyMap [onlyLocal, tieRemote] exampleChanges =
     [''work'' \<mapsto> tieRemote, ''laptop'' \<mapsto> onlyLocal]"
  by (rule ext)
    (simp add: ApplyChanges_keyMap_def buildKeyMap_def exampleChanges_def changeOf_def applyChange_def
      changeType_defs example_names)

lemma example_apply1:
  "ApplyChanges [''laptop'', ''work''] [tieLocal, sameBoth] exampleChanges = [onlyLocal, tieRemote]"
  by (simp add: ApplyChanges_eq example_keyMap)

lemma example_apply2:
  "ApplyChanges [''work'', ''laptop''] [onlyLocal, tieRemote] exampleChanges = [tieRemote, onlyLocal]"
  by (simp add: ApplyChanges_eq example_keyMap2)

theorem C3_ApplyChanges_witness:
  "enumerates [''laptop'', ''work''] (ApplyChanges_keyMap [tieLocal, sameBoth] exampleChanges) \<and>
   enumerates [''work'', ''laptop'']
     (ApplyChanges_keyMap (ApplyChanges [''laptop'', ''work''] [tieLocal, sameBoth] exampleChanges)
        exampleChanges) \<and>
   ApplyChanges [''laptop'', ''work''] [tieLocal, sameBoth] exampleChanges = [onlyLocal, tieRemote] \<and>
   ApplyChanges [''work'', ''laptop'']
     (ApplyChanges [''laptop'', ''work''] [tieLocal, sameBoth] exampleChanges) exampleChanges =
     [tieRemote, onlyLocal] \<and>
   mset (ApplyChanges [''work'', ''laptop'']
     (ApplyChanges [''laptop'', ''work''] [tieLocal, sameBoth] exampleChanges) exampleChanges) =
     mset (ApplyChanges [''laptop'', ''work''] [tieLocal, sameBoth] exampleChanges) \<and>
   kc_Type (changeOf ChangeTypeDelete (Key_zero\<lparr>Name := ''ghost''\<rparr>)) = ChangeTypeDelete \<and>
   Name (kc_Key (changeOf ChangeTypeDelete (Key_zero\<lparr>Name := ''ghost''\<rparr>)))
     \<notin> dom (buildKeyMap [tieLocal, sameBoth]) \<and>
   applyChange (buildKeyMap [tieLocal, sameBoth]) (changeOf ChangeTypeDelete (Key_zero\<lparr>Name := ''ghost''\<rparr>)) =
     buildKeyMap [tieLocal, sameBoth]"
proof -
  have o1: "enumerates [''laptop'', ''work''] (ApplyChanges_keyMap [tieLocal, sameBoth] exampleChanges)"
    by (auto simp: enumerates_def example_keyMap)
  have o2: "enumerates [''work'', ''laptop'']
     (ApplyChanges_keyMap (ApplyChanges [''laptop'', ''work''] [tieLocal, sameBoth] exampleChanges)
        exampleChanges)"
    by (auto simp: enumerates_def example_apply1 example_keyMap2)
  have d: "kc_Type (changeOf ChangeTypeDelete (Key_zero\<lparr>Name := ''ghost''\<rparr>)) = ChangeTypeDelete"
      "Name (kc_Key (changeOf ChangeTypeDelete (Key_zero\<lparr>Name := ''ghost''\<rparr>)))
         \<notin> dom (buildKeyMap [tieLocal, sameBoth])"
    by (simp_all add: changeOf_def dom_buildKeyMap example_names)
  note th = C3_ApplyChanges_idempotent [OF o1 o2,
      of "changeOf ChangeTypeDelete (Key_zero\<lparr>Name := ''ghost''\<rparr>)" "buildKeyMap [tieLocal, sameBoth]"]
  have m: "mset (ApplyChanges [''work'', ''laptop'']
     (ApplyChanges [''laptop'', ''work''] [tieLocal, sameBoth] exampleChanges) exampleChanges) =
     mset (ApplyChanges [''laptop'', ''work''] [tieLocal, sameBoth] exampleChanges)"
    using th by blast
  have n: "applyChange (buildKeyMap [tieLocal, sameBoth]) (changeOf ChangeTypeDelete (Key_zero\<lparr>Name := ''ghost''\<rparr>)) =
     buildKeyMap [tieLocal, sameBoth]"
    using th d by blast
  have a2: "ApplyChanges [''work'', ''laptop'']
     (ApplyChanges [''laptop'', ''work''] [tieLocal, sameBoth] exampleChanges) exampleChanges =
     [tieRemote, onlyLocal]"
    by (simp only: example_apply1 example_apply2)
  show ?thesis using o1 o2 example_apply1 a2 m d n by (intro conjI)
qed

end
